theory Spec2Isabelle
  imports Main "HOL-Library.Word"
begin

unbundle bit_operations_syntax

section \<open>Data model of connection.go\<close>

type_synonym byte = "8 word"
type_synonym uint16 = "16 word"
type_synonym uint32 = "32 word"

text \<open>A \<^verbatim>\<open>*Payload\<close> is an address; the payload objects live in a store, because
  \<^verbatim>\<open>bufferPayload\<close> writes through the pointer it is given.\<close>

type_synonym ref = nat

text \<open>Modelled from the spec: the \<^verbatim>\<open>Payload\<close> struct is declared outside connection.go.
  Only the fields connection.go reads are kept: the device token (a hex string), the
  expiration epoch (4 bytes on the wire) and the priority (1 byte on the wire).\<close>

record Payload =
  Token :: string
  ExpirationTime :: uint32
  Priority :: byte

type_synonym heap = "ref \<Rightarrow> Payload"

text \<open>\<^verbatim>\<open>marshalAlertBodyPayload\<close> is declared outside connection.go as well; it is a
  parameter of the model: the payload and the maximum size go in, an error message or the
  marshalled bytes come out.\<close>

type_synonym marshal = "Payload \<Rightarrow> nat \<Rightarrow> string + byte list"

record AppleError =
  MessageId :: uint32
  ErrorCode :: byte
  ErrorString :: string

record ConnectionClose =
  UnsentPayloads :: "ref list"
  Error :: AppleError
  ErrorPayload :: "ref option"
  UnsentPayloadBufferOverflow :: bool

record idPayload =
  Payload :: ref
  Id' :: uint32

text \<open>The transport (\<^verbatim>\<open>net.Conn\<close>) as a trace: every call of \<^verbatim>\<open>Write\<close> is logged with its
  data and whether it succeeded, calls of \<^verbatim>\<open>Close\<close> are counted, and the results of the
  writes to come are given by the environment (\<open>True\<close> is success; once the list is used
  up every write succeeds).\<close>

record Socket =
  writes :: "(byte list \<times> bool) list"
  closes :: nat
  outcomes :: "bool list"

definition next_outcome :: "Socket \<Rightarrow> bool" where
  "next_outcome s = (case outcomes s of [] \<Rightarrow> True | ok # rest \<Rightarrow> ok)"

definition socket_Write :: "byte list \<Rightarrow> Socket \<Rightarrow> bool \<times> Socket" where
  "socket_Write bs s =
     (let ok = next_outcome s
      in (ok, s\<lparr>writes := writes s @ [(bs, ok)], outcomes := tl (outcomes s)\<rparr>))"

definition socket_Close :: "Socket \<Rightarrow> Socket" where
  "socket_Close s = s\<lparr>closes := Suc (closes s)\<rparr>"

text \<open>The connection. The two channels and the mutex carry no data of their own; the
  front of the Go list \<^verbatim>\<open>inFlightPayloadBuffer\<close> is the head of the HOL list.\<close>

record APNSConnection =
  socket :: Socket
  inFlightPayloadBuffer :: "idPayload list"
  inFlightPayloadBufferSize :: int
  inFlightByteBuffer :: "byte list"
  inFlightId :: byte
  payloadIdCounter :: uint32

definition TCP_FRAME_MAX :: nat where
  "TCP_FRAME_MAX = 65535"

definition APPLE_PUSH_RESPONSES :: "(byte \<times> string) list" where
  "APPLE_PUSH_RESPONSES =
     [(0, ''NO_ERRORS''),
      (1, ''PROCESSING_ERROR''),
      (2, ''MISSING_DEVICE_TOKEN''),
      (3, ''MISSING_TOPIC''),
      (4, ''MISSING_PAYLOAD''),
      (5, ''INVALID_TOKEN_SIZE''),
      (6, ''INVALID_TOPIC_SIZE''),
      (7, ''INVALID_PAYLOAD_SIZE''),
      (8, ''INVALID_TOKEN''),
      (10, ''SHUTDOWN''),
      (255, ''UNKNOWN'')]"

text \<open>Indexing a Go map with a key it does not hold gives the zero value, here the empty
  string.\<close>

definition response_string :: "byte \<Rightarrow> string" where
  "response_string code =
     (case map_of APPLE_PUSH_RESPONSES code of None \<Rightarrow> [] | Some s \<Rightarrow> s)"

section \<open>Library functions the code calls\<close>

text \<open>\<^verbatim>\<open>binary.BigEndian\<close>: most significant byte first.\<close>

definition be16 :: "uint16 \<Rightarrow> byte list" where
  "be16 w = [ucast (drop_bit 8 w), ucast w]"

definition be32 :: "uint32 \<Rightarrow> byte list" where
  "be32 w = [ucast (drop_bit 24 w), ucast (drop_bit 16 w), ucast (drop_bit 8 w), ucast w]"

text \<open>\<^verbatim>\<open>binary.BigEndian.Uint32\<close>; the code calls it on the last four bytes of a six-byte
  array only.\<close>

definition BigEndian_Uint32 :: "byte list \<Rightarrow> uint32" where
  "BigEndian_Uint32 b =
     ucast (b ! 3) OR push_bit 8 (ucast (b ! 2)) OR push_bit 16 (ucast (b ! 1))
       OR push_bit 24 (ucast (b ! 0))"

text \<open>\<^verbatim>\<open>hex.DecodeString\<close>: two hex digits per byte, either case; a character that is no
  hex digit or an odd length is an error.\<close>

definition fromHexChar :: "char \<Rightarrow> byte option" where
  "fromHexChar c =
     (let n = (of_char c :: nat) in
      if 48 \<le> n \<and> n \<le> 57 then Some (of_nat (n - 48))
      else if 97 \<le> n \<and> n \<le> 102 then Some (of_nat (n - 97 + 10))
      else if 65 \<le> n \<and> n \<le> 70 then Some (of_nat (n - 65 + 10))
      else None)"

fun hex_DecodeString :: "string \<Rightarrow> byte list option" where
  "hex_DecodeString [] = Some []"
| "hex_DecodeString [p] = None"
| "hex_DecodeString (p # q # rest) =
     (case fromHexChar p of
        None \<Rightarrow> None
      | Some a \<Rightarrow>
          (case fromHexChar q of
             None \<Rightarrow> None
           | Some b \<Rightarrow>
               (case hex_DecodeString rest of
                  None \<Rightarrow> None
                | Some bs \<Rightarrow> Some ((push_bit 4 a OR b) # bs))))"

section \<open>Construction\<close>

definition socketAPNSConnectionBufSize :: "Socket \<Rightarrow> int \<Rightarrow> APNSConnection" where
  "socketAPNSConnectionBufSize sock bufferSize =
     \<lparr>socket = sock,
      inFlightPayloadBuffer = [],
      inFlightPayloadBufferSize = bufferSize,
      inFlightByteBuffer = [],
      inFlightId = 0,
      payloadIdCounter = 0\<rparr>"

definition socketAPNSConnection :: "Socket \<Rightarrow> APNSConnection" where
  "socketAPNSConnection sock = socketAPNSConnectionBufSize sock 10000"

definition NewAPNSConnection :: "Socket \<Rightarrow> APNSConnection" where
  "NewAPNSConnection sock = socketAPNSConnection sock"

section \<open>The close listener\<close>

text \<open>What \<^verbatim>\<open>socket.Read\<close> gave: an error with its message, or the bytes it stored at the
  start of the six-byte buffer (the rest of the buffer stays zero).\<close>

datatype read_result = ReadError string | ReadOk "byte list"

definition closeListener :: "read_result \<Rightarrow> AppleError" where
  "closeListener rd =
     (case rd of
        ReadError msg \<Rightarrow> \<lparr>MessageId = 0, ErrorCode = 10, ErrorString = msg\<rparr>
      | ReadOk bs \<Rightarrow>
          (let buffer = take 6 bs @ replicate (6 - length bs) 0;
               messageId = BigEndian_Uint32 (drop 2 buffer)
           in \<lparr>MessageId = messageId,
               ErrorCode = buffer ! 1,
               ErrorString = response_string (buffer ! 1)\<rparr>))"

section \<open>Flushing and disconnecting\<close>

text \<open>\<open>None\<close> is the index-out-of-range panic of the four assignments to
  \<^verbatim>\<open>bufBytes[1..4]\<close> on a buffer of one to four bytes.\<close>

definition flushBufferToSocket :: "APNSConnection \<Rightarrow> APNSConnection option" where
  "flushBufferToSocket c =
     (let n = length (inFlightByteBuffer c) in
      if n = 0 \<or> n = 5 then Some c
      else if n < 5 then None
      else
        (let frameLength = (word_of_nat (n - 5) :: uint32);
             frameLengthBytes = be32 frameLength;
             bufBytes = (inFlightByteBuffer c)
               [1 := frameLengthBytes ! 0,
                2 := frameLengthBytes ! 1,
                3 := frameLengthBytes ! 2,
                4 := frameLengthBytes ! 3];
             (ok, s) = socket_Write bufBytes (socket c)
         in Some (c\<lparr>inFlightByteBuffer := bufBytes,
                    socket := (if ok then s else socket_Close s)\<rparr>)))"

definition noFlushDisconnect :: "APNSConnection \<Rightarrow> APNSConnection" where
  "noFlushDisconnect c = c\<lparr>socket := socket_Close (socket c)\<rparr>"

definition Disconnect :: "APNSConnection \<Rightarrow> APNSConnection option" where
  "Disconnect c =
     (case flushBufferToSocket c of
        None \<Rightarrow> None
      | Some c' \<Rightarrow> Some (noFlushDisconnect c'))"

section \<open>Encoding and batching one notification\<close>

datatype encode_error = TokenDecodeFailed | MarshalFailed string

text \<open>The first half of \<^verbatim>\<open>bufferPayload\<close>: the item buffer, with the placeholder 0 for
  the local id, and the store after the write to \<^verbatim>\<open>Payload.Priority\<close>.\<close>

definition bufferPayload_item ::
  "marshal \<Rightarrow> heap \<Rightarrow> idPayload \<Rightarrow> encode_error + (byte list \<times> heap)" where
  "bufferPayload_item m h idPayloadObj =
     (let p = h (Payload idPayloadObj) in
      case hex_DecodeString (Token p) of
        None \<Rightarrow> Inl TokenDecodeFailed
      | Some token \<Rightarrow>
          (case m p 256 of
             Inl err \<Rightarrow> Inl (MarshalFailed err)
           | Inr payloadBytes \<Rightarrow>
               (let dataLength = 32 + length payloadBytes + 4 + 4 + 1;
                    h' = (if Priority p \<noteq> 10 \<and> Priority p \<noteq> 5
                          then h(Payload idPayloadObj := p\<lparr>Priority := 5\<rparr>)
                          else h)
                in Inr ([0] @ be16 (word_of_nat dataLength) @ token @ payloadBytes
                          @ be32 (Id' idPayloadObj) @ be32 (ExpirationTime p)
                          @ [Priority (h' (Payload idPayloadObj))],
                        h'))))"

text \<open>The second half: the item gets its local id and goes to the frame buffer.\<close>

definition writeItem :: "byte list \<Rightarrow> APNSConnection \<Rightarrow> APNSConnection" where
  "writeItem itemBuffer c =
     c\<lparr>inFlightByteBuffer := inFlightByteBuffer c @ itemBuffer[0 := inFlightId c]\<rparr>"

definition writeHeader :: "APNSConnection \<Rightarrow> APNSConnection" where
  "writeHeader c =
     c\<lparr>inFlightByteBuffer := inFlightByteBuffer c @ [2] @ be32 0, inFlightId := 0\<rparr>"

definition bufferPayload ::
  "marshal \<Rightarrow> idPayload \<Rightarrow> heap \<times> APNSConnection \<Rightarrow> (heap \<times> APNSConnection) option" where
  "bufferPayload m idPayloadObj hc =
     (let (h, c) = hc in
      case bufferPayload_item m h idPayloadObj of
        Inl err \<Rightarrow> map_option (Pair h) (Disconnect c)
      | Inr (itemBuffer, h') \<Rightarrow>
          (let bl = length (inFlightByteBuffer c); il = length itemBuffer in
           if bl + il > TCP_FRAME_MAX \<or> bl = 0 then
             (if bl + il > TCP_FRAME_MAX then
                (case flushBufferToSocket c of
                   None \<Rightarrow> None
                 | Some c' \<Rightarrow>
                     Some (h', writeItem itemBuffer
                                 (writeHeader (c'\<lparr>inFlightByteBuffer := []\<rparr>))))
              else Some (h', writeItem itemBuffer (writeHeader c)))
           else Some (h', writeItem itemBuffer (c\<lparr>inFlightId := inFlightId c + 1\<rparr>))))"

section \<open>The send listener\<close>

definition nextPayloadId :: "APNSConnection \<Rightarrow> uint32 \<times> APNSConnection" where
  "nextPayloadId c =
     (let n = payloadIdCounter c + 1;
          n' = (if n = 0 then 1 else n)
      in (n', c\<lparr>payloadIdCounter := n'\<rparr>))"

text \<open>What the \<^verbatim>\<open>select\<close> of the loop receives: a payload pointer from the send channel
  (\<open>None\<close> is nil, the closed channel), the timer, or the error of the close listener.\<close>

datatype event = SendPayload "ref option" | TimeoutFired | AppleErrorReceived AppleError

text \<open>The loop over the retained entries, newest first; each unsent payload is pushed to
  the front of the result.\<close>

fun gatherUnsent :: "uint32 \<Rightarrow> idPayload list \<Rightarrow> ref list \<Rightarrow> ref list \<times> ref option" where
  "gatherUnsent messageId [] unsentPayloads = (unsentPayloads, None)"
| "gatherUnsent messageId (e # es) unsentPayloads =
     (if messageId \<noteq> 0 \<and> Id' e = messageId then (unsentPayloads, Some (Payload e))
      else gatherUnsent messageId es (Payload e # unsentPayloads))"

definition connectionClose :: "AppleError \<Rightarrow> APNSConnection \<Rightarrow> ConnectionClose" where
  "connectionClose appleError c =
     (let (unsentPayloads, errorPayload) =
            gatherUnsent (MessageId appleError) (inFlightPayloadBuffer c) []
      in \<lparr>UnsentPayloads = unsentPayloads,
          Error = appleError,
          ErrorPayload = errorPayload,
          UnsentPayloadBufferOverflow = (length unsentPayloads > 0 \<and> errorPayload = None)\<rparr>)"

text \<open>The \<^verbatim>\<open>sendPayload\<close> case of the loop.\<close>

definition submit ::
  "marshal \<Rightarrow> ref \<Rightarrow> heap \<times> APNSConnection \<Rightarrow> (heap \<times> APNSConnection) option" where
  "submit m sendPayload hc =
     (let (h, c) = hc;
          (i, c1) = nextPayloadId c;
          idPayloadObj = \<lparr>Payload = sendPayload, Id' = i\<rparr>;
          c2 = c1\<lparr>inFlightPayloadBuffer := idPayloadObj # inFlightPayloadBuffer c1\<rparr>;
          c3 = (if int (length (inFlightPayloadBuffer c2)) > inFlightPayloadBufferSize c2
                then c2\<lparr>inFlightPayloadBuffer := butlast (inFlightPayloadBuffer c2)\<rparr>
                else c2)
      in bufferPayload m idPayloadObj (h, c3))"

text \<open>How a run of the listener over the events it receives ends: it panicked, it
  returned because the send channel was closed, it is still waiting in the \<^verbatim>\<open>select\<close>
  (the events are used up), or it sent the \<^verbatim>\<open>ConnectionClose\<close>.\<close>

datatype listener_result = Panicked | ChannelClosed | Waiting | Closed ConnectionClose

fun sendListener ::
  "marshal \<Rightarrow> heap \<times> APNSConnection \<Rightarrow> event list
     \<Rightarrow> listener_result \<times> heap \<times> APNSConnection" where
  "sendListener m hc [] = (Waiting, hc)"
| "sendListener m hc (SendPayload None # evs) = (ChannelClosed, hc)"
| "sendListener m hc (SendPayload (Some sendPayload) # evs) =
     (case submit m sendPayload hc of
        None \<Rightarrow> (Panicked, hc)
      | Some hc' \<Rightarrow> sendListener m hc' evs)"
| "sendListener m hc (TimeoutFired # evs) =
     (case flushBufferToSocket (snd hc) of
        None \<Rightarrow> (Panicked, hc)
      | Some c' \<Rightarrow> sendListener m (fst hc, c') evs)"
| "sendListener m hc (AppleErrorReceived appleError # evs) =
     (Closed (connectionClose appleError (snd hc)), hc)"

section \<open>Runs and sample inputs\<close>

text \<open>The ids that \<open>n\<close> calls of \<^verbatim>\<open>nextPayloadId\<close> in a row return.\<close>

fun assignIds :: "nat \<Rightarrow> APNSConnection \<Rightarrow> uint32 list" where
  "assignIds 0 c = []"
| "assignIds (Suc n) c = (let (i, c') = nextPayloadId c in i # assignIds n c')"

text \<open>The payloads a list of events submits, in order, and the lists of events that keep
  the loop running: submissions and timer ticks.\<close>

fun submitted :: "event list \<Rightarrow> ref list" where
  "submitted [] = []"
| "submitted (SendPayload (Some r) # evs) = r # submitted evs"
| "submitted (ev # evs) = submitted evs"

fun active :: "event list \<Rightarrow> bool" where
  "active [] = True"
| "active (SendPayload (Some r) # evs) = active evs"
| "active (TimeoutFired # evs) = active evs"
| "active (ev # evs) = False"

text \<open>A frame buffer is well formed when it is empty or starts with the five bytes of a
  header.\<close>

definition headed :: "APNSConnection \<Rightarrow> bool" where
  "headed c = (length (inFlightByteBuffer c) = 0 \<or> 5 \<le> length (inFlightByteBuffer c))"

text \<open>The inputs on which every item is short: each token that decodes has 32 bytes and
  the marshaller keeps to 256 bytes.\<close>

definition tokens32 :: "heap \<Rightarrow> bool" where
  "tokens32 h =
     (\<forall>r. case hex_DecodeString (Token (h r)) of None \<Rightarrow> True | Some t \<Rightarrow> length t = 32)"

definition bounded_marshal :: "marshal \<Rightarrow> bool" where
  "bounded_marshal m =
     (\<forall>p. case m p 256 of Inl err \<Rightarrow> True | Inr payloadBytes \<Rightarrow> length payloadBytes \<le> 256)"

text \<open>No frame was written, and none is being built, that is longer than the maximum.\<close>

definition frames_bounded :: "APNSConnection \<Rightarrow> bool" where
  "frames_bounded c =
     (length (inFlightByteBuffer c) \<le> TCP_FRAME_MAX \<and>
      list_all (\<lambda>w. length (fst w) \<le> TCP_FRAME_MAX) (writes (socket c)))"

text \<open>The store that \<^verbatim>\<open>bufferPayload\<close> leaves: the one of the encoded item, or the
  store as it was when the item could not be encoded.\<close>

definition store_after :: "marshal \<Rightarrow> heap \<Rightarrow> idPayload \<Rightarrow> heap" where
  "store_after m h ip =
     (case bufferPayload_item m h ip of Inl e \<Rightarrow> h | Inr (item, h') \<Rightarrow> h')"

text \<open>Sample inputs: a socket that has seen no call, a token of 32 bytes, payloads that
  differ in their priority, and a marshaller that gives the two bytes of \<^verbatim>\<open>{}\<close>.\<close>

definition fresh_socket :: Socket where
  "fresh_socket = \<lparr>writes = [], closes = 0, outcomes = []\<rparr>"

definition failing_socket :: Socket where
  "failing_socket = \<lparr>writes = [], closes = 0, outcomes = [False]\<rparr>"

definition token32 :: string where
  "token32 = ''000102030405060708090a0b0c0d0e0f101112131415161718191A1B1C1D1E1F''"

definition sample_heap :: heap where
  "sample_heap r = \<lparr>Token = token32, ExpirationTime = 3600, Priority = of_nat r\<rparr>"

definition sample_marshal :: marshal where
  "sample_marshal p n = Inr [123, 125]"

text \<open>A connection on a socket whose next write fails, with nine bytes in its frame
  buffer.\<close>

definition pending_connection :: APNSConnection where
  "pending_connection =
     (NewAPNSConnection failing_socket)\<lparr>inFlightByteBuffer := [2, 0, 0, 0, 0, 0, 0, 1, 7]\<rparr>"

text \<open>Payloads whose tokens are valid hex strings of one byte and of 65536 bytes.\<close>

definition short_heap :: heap where
  "short_heap r = \<lparr>Token = ''ab'', ExpirationTime = 3600, Priority = 10\<rparr>"

definition long_heap :: heap where
  "long_heap r = \<lparr>Token = replicate (2 * 65536) (CHR ''0''), ExpirationTime = 3600, Priority = 10\<rparr>"

text \<open>A connection whose id counter is two steps from the 32-bit maximum.\<close>

definition wrapping_connection :: APNSConnection where
  "wrapping_connection = (NewAPNSConnection fresh_socket)\<lparr>payloadIdCounter := 4294967294\<rparr>"

section \<open>Big-endian fields\<close>

lemma length_be16 [simp]: "length (be16 w) = 2"
  by (simp add: be16_def)

lemma length_be32 [simp]: "length (be32 w) = 4"
  by (simp add: be32_def)

lemma BigEndian_Uint32_be32: "BigEndian_Uint32 (be32 w) = w"
  unfolding be32_def BigEndian_Uint32_def
  apply (rule bit_word_eqI)
  apply (simp add: bit_or_iff bit_push_bit_iff bit_ucast_iff bit_drop_bit_eq)
  using nat_diff_split_asm by fastforce

section \<open>The public constructor\<close>

text \<open>Claim C10: a connection made by the public constructor, which takes the transport
  and nothing else, has a replay buffer capacity of 10000.\<close>

theorem NewAPNSConnection_capacity:
  "inFlightPayloadBufferSize (NewAPNSConnection sock) = 10000"
  by (simp add: NewAPNSConnection_def socketAPNSConnection_def socketAPNSConnectionBufSize_def)

section \<open>The close listener\<close>

lemma response_string_unlisted:
  "code \<notin> fst ` set APPLE_PUSH_RESPONSES \<Longrightarrow> response_string code = []"
  by (simp add: response_string_def map_of_eq_None_iff [THEN iffD2])

text \<open>Claim C2 as stated fails: the response with error code 9, which the table does not
  list, gives an error with code 9 and the empty string, not code 255 and \<open>UNKNOWN\<close>.\<close>

theorem closeListener_unlisted_counterexample:
  "(9 :: byte) \<notin> fst ` set APPLE_PUSH_RESPONSES \<and>
   closeListener (ReadOk [8, 9, 0, 0, 0, 1]) =
     \<lparr>MessageId = 1, ErrorCode = 9, ErrorString = []\<rparr> \<and>
   ErrorCode (closeListener (ReadOk [8, 9, 0, 0, 0, 1])) \<noteq> 255 \<and>
   ErrorString (closeListener (ReadOk [8, 9, 0, 0, 0, 1])) \<noteq> ''UNKNOWN''"
  by (simp add: closeListener_def BigEndian_Uint32_def response_string_def
      APPLE_PUSH_RESPONSES_def)

text \<open>Claim C2, amended: for a six-byte response whose error code the table does not
  list, the error carries the code as the peer sent it, the empty string and the
  notification id of the response.\<close>

theorem closeListener_unlisted:
  assumes "code \<notin> fst ` set APPLE_PUSH_RESPONSES"
  shows "closeListener (ReadOk [command, code, b0, b1, b2, b3]) =
           \<lparr>MessageId = BigEndian_Uint32 [b0, b1, b2, b3], ErrorCode = code,
            ErrorString = []\<rparr> \<and>
         closeListener (ReadOk ([command, code] @ be32 messageId)) =
           \<lparr>MessageId = messageId, ErrorCode = code, ErrorString = []\<rparr>"
proof
  show "closeListener (ReadOk [command, code, b0, b1, b2, b3]) =
           \<lparr>MessageId = BigEndian_Uint32 [b0, b1, b2, b3], ErrorCode = code,
            ErrorString = []\<rparr>"
    using assms by (simp add: closeListener_def response_string_unlisted)
next
  have "drop 2 (take 6 ([command, code] @ be32 messageId)) = be32 messageId"
    by (simp add: be32_def)
  then show "closeListener (ReadOk ([command, code] @ be32 messageId)) =
           \<lparr>MessageId = messageId, ErrorCode = code, ErrorString = []\<rparr>"
    using assms
    by (simp add: closeListener_def response_string_unlisted BigEndian_Uint32_be32)
qed

theorem closeListener_unlisted_witness:
  "(9 :: byte) \<notin> fst ` set APPLE_PUSH_RESPONSES \<and>
   closeListener (ReadOk [8, 9, 0, 0, 0, 2]) =
     \<lparr>MessageId = 2, ErrorCode = 9, ErrorString = []\<rparr> \<and>
   closeListener (ReadOk ([8, 9] @ be32 2)) =
     \<lparr>MessageId = 2, ErrorCode = 9, ErrorString = []\<rparr>"
proof -
  have h: "(9 :: byte) \<notin> fst ` set APPLE_PUSH_RESPONSES"
    by (simp add: APPLE_PUSH_RESPONSES_def)
  from closeListener_unlisted [OF h, of 8 0 0 0 2 2] h show ?thesis
    by (simp add: BigEndian_Uint32_def)
qed

section \<open>Flushing\<close>

lemma five_bytes:
  assumes "5 \<le> length buf"
  obtains x0 x1 x2 x3 x4 r where "buf = x0 # x1 # x2 # x3 # x4 # r"
  using assms by (auto simp: eval_nat_numeral Suc_le_length_iff)

lemma list_update_header:
  assumes "5 \<le> length buf"
  shows "buf[Suc 0 := a, 2 := b, 3 := c, 4 := d] = take 1 buf @ [a, b, c, d] @ drop 5 buf"
proof -
  from assms obtain x0 x1 x2 x3 x4 r where "buf = x0 # x1 # x2 # x3 # x4 # r"
    by (rule five_bytes)
  then show ?thesis by simp
qed

text \<open>The buffer after the frame length has been filled in.\<close>

lemma flushBufferToSocket_writes:
  assumes "5 < length (inFlightByteBuffer c)"
  shows "flushBufferToSocket c =
    Some (c\<lparr>inFlightByteBuffer :=
               take 1 (inFlightByteBuffer c)
                 @ be32 (word_of_nat (length (inFlightByteBuffer c) - 5))
                 @ drop 5 (inFlightByteBuffer c),
             socket := (socket c)
               \<lparr>writes := writes (socket c)
                   @ [(take 1 (inFlightByteBuffer c)
                         @ be32 (word_of_nat (length (inFlightByteBuffer c) - 5))
                         @ drop 5 (inFlightByteBuffer c),
                       next_outcome (socket c))],
                 outcomes := tl (outcomes (socket c)),
                 closes := (if next_outcome (socket c) then closes (socket c)
                            else Suc (closes (socket c)))\<rparr>\<rparr>)"
proof -
  from assms have "inFlightByteBuffer c \<noteq> []" by auto
  with assms show ?thesis
    by (simp add: flushBufferToSocket_def Let_def socket_Write_def socket_Close_def
        list_update_header be32_def)
qed

lemma flushBufferToSocket_idle:
  "length (inFlightByteBuffer c) = 0 \<or> length (inFlightByteBuffer c) = 5
     \<Longrightarrow> flushBufferToSocket c = Some c"
  by (auto simp: flushBufferToSocket_def)

lemma flushBufferToSocket_panics:
  "0 < length (inFlightByteBuffer c) \<Longrightarrow> length (inFlightByteBuffer c) < 5
     \<Longrightarrow> flushBufferToSocket c = None"
  by (auto simp: flushBufferToSocket_def)

text \<open>Claim C7: the flush leaves the connection as it is exactly when the frame buffer is
  empty or holds five bytes. On a longer buffer it returns, the buffer keeps its length,
  its first byte and everything after the header, the four bytes at offsets 1 to 4 are
  the big-endian 32-bit value of the length minus five, the transport sees one more call
  of Write, with the whole patched buffer, and it is closed once more exactly when that
  write failed.\<close>

theorem flushBufferToSocket_contract:
  "(flushBufferToSocket c = Some c) =
     (length (inFlightByteBuffer c) = 0 \<or> length (inFlightByteBuffer c) = 5) \<and>
   (5 < length (inFlightByteBuffer c) \<longrightarrow>
     (\<exists>c'. flushBufferToSocket c = Some c' \<and>
        length (inFlightByteBuffer c') = length (inFlightByteBuffer c) \<and>
        take 1 (inFlightByteBuffer c') = take 1 (inFlightByteBuffer c) \<and>
        drop 5 (inFlightByteBuffer c') = drop 5 (inFlightByteBuffer c) \<and>
        BigEndian_Uint32 (take 4 (drop 1 (inFlightByteBuffer c')))
          = word_of_nat (length (inFlightByteBuffer c) - 5) \<and>
        (length (inFlightByteBuffer c) - 5 < 2 ^ 32 \<longrightarrow>
           unat (BigEndian_Uint32 (take 4 (drop 1 (inFlightByteBuffer c'))))
             = length (inFlightByteBuffer c) - 5) \<and>
        writes (socket c') =
          writes (socket c) @ [(inFlightByteBuffer c', next_outcome (socket c))] \<and>
        closes (socket c') =
          (if next_outcome (socket c) then closes (socket c) else Suc (closes (socket c))) \<and>
        inFlightPayloadBuffer c' = inFlightPayloadBuffer c \<and>
        inFlightPayloadBufferSize c' = inFlightPayloadBufferSize c \<and>
        inFlightId c' = inFlightId c \<and>
        payloadIdCounter c' = payloadIdCounter c))"
proof (intro conjI impI)
  show "(flushBufferToSocket c = Some c) =
     (length (inFlightByteBuffer c) = 0 \<or> length (inFlightByteBuffer c) = 5)"
  proof
    assume "length (inFlightByteBuffer c) = 0 \<or> length (inFlightByteBuffer c) = 5"
    then show "flushBufferToSocket c = Some c" by (rule flushBufferToSocket_idle)
  next
    assume same: "flushBufferToSocket c = Some c"
    show "length (inFlightByteBuffer c) = 0 \<or> length (inFlightByteBuffer c) = 5"
    proof (rule ccontr)
      assume other: "\<not> ?thesis"
      show False
      proof (cases "length (inFlightByteBuffer c) < 5")
        case True
        with other same show False by (simp add: flushBufferToSocket_panics)
      next
        case False
        with other have "5 < length (inFlightByteBuffer c)" by simp
        from flushBufferToSocket_writes [OF this] same
        have "length (writes (socket c)) = Suc (length (writes (socket c)))"
          by (auto dest: arg_cong [where f = "\<lambda>x. length (writes (socket x))"])
        then show False by simp
      qed
    qed
  qed
next
  assume long: "5 < length (inFlightByteBuffer c)"
  let ?n = "length (inFlightByteBuffer c)"
  have field: "take 4 (drop 1 (take 1 (inFlightByteBuffer c) @ be32 (word_of_nat (?n - 5))
                 @ drop 5 (inFlightByteBuffer c))) = be32 (word_of_nat (?n - 5))"
    using long by simp
  have small: "?n - 5 < 2 ^ 32 \<Longrightarrow> unat (word_of_nat (?n - 5) :: uint32) = ?n - 5"
    by (simp add: unat_of_nat del: of_nat_diff)
  show "\<exists>c'. flushBufferToSocket c = Some c' \<and>
        length (inFlightByteBuffer c') = length (inFlightByteBuffer c) \<and>
        take 1 (inFlightByteBuffer c') = take 1 (inFlightByteBuffer c) \<and>
        drop 5 (inFlightByteBuffer c') = drop 5 (inFlightByteBuffer c) \<and>
        BigEndian_Uint32 (take 4 (drop 1 (inFlightByteBuffer c')))
          = word_of_nat (length (inFlightByteBuffer c) - 5) \<and>
        (length (inFlightByteBuffer c) - 5 < 2 ^ 32 \<longrightarrow>
           unat (BigEndian_Uint32 (take 4 (drop 1 (inFlightByteBuffer c'))))
             = length (inFlightByteBuffer c) - 5) \<and>
        writes (socket c') =
          writes (socket c) @ [(inFlightByteBuffer c', next_outcome (socket c))] \<and>
        closes (socket c') =
          (if next_outcome (socket c) then closes (socket c) else Suc (closes (socket c))) \<and>
        inFlightPayloadBuffer c' = inFlightPayloadBuffer c \<and>
        inFlightPayloadBufferSize c' = inFlightPayloadBufferSize c \<and>
        inFlightId c' = inFlightId c \<and>
        payloadIdCounter c' = payloadIdCounter c"
    unfolding flushBufferToSocket_writes [OF long]
    using long small by (simp add: field BigEndian_Uint32_be32 del: of_nat_diff)
qed

theorem flushBufferToSocket_contract_witness:
  "5 < length (inFlightByteBuffer pending_connection) \<and>
   flushBufferToSocket pending_connection \<noteq> Some pending_connection \<and>
   (\<exists>c'. flushBufferToSocket pending_connection = Some c' \<and>
      length (inFlightByteBuffer c') = 9 \<and>
      BigEndian_Uint32 (take 4 (drop 1 (inFlightByteBuffer c'))) = 4 \<and>
      writes (socket c') = [(inFlightByteBuffer c', False)] \<and>
      closes (socket c') = 1)"
proof -
  have long: "5 < length (inFlightByteBuffer pending_connection)"
    by (simp add: pending_connection_def)
  have sock: "socket pending_connection = failing_socket"
    by (simp add: pending_connection_def NewAPNSConnection_def socketAPNSConnection_def
        socketAPNSConnectionBufSize_def)
  have len: "length (inFlightByteBuffer pending_connection) = 9"
    by (simp add: pending_connection_def)
  from flushBufferToSocket_contract [of pending_connection] long
  show ?thesis
    by (auto simp: sock len failing_socket_def next_outcome_def)
qed

section \<open>Encoding one item\<close>

lemma bufferPayload_item_Inr:
  assumes "hex_DecodeString (Token (h (Payload ip))) = Some token"
      and "m (h (Payload ip)) 256 = Inr payloadBytes"
  shows "bufferPayload_item m h ip =
           Inr ([0] @ be16 (word_of_nat (32 + length payloadBytes + 4 + 4 + 1)) @ token
                  @ payloadBytes @ be32 (Id' ip) @ be32 (ExpirationTime (h (Payload ip)))
                  @ [if Priority (h (Payload ip)) \<noteq> 10 \<and> Priority (h (Payload ip)) \<noteq> 5
                     then 5 else Priority (h (Payload ip))],
                if Priority (h (Payload ip)) \<noteq> 10 \<and> Priority (h (Payload ip)) \<noteq> 5
                then h(Payload ip := (h (Payload ip))\<lparr>Priority := 5\<rparr>) else h)"
  using assms by (simp add: bufferPayload_item_def Let_def)

lemma bufferPayload_item_Inl:
  assumes "hex_DecodeString (Token (h (Payload ip))) = None \<or> (\<exists>err. m (h (Payload ip)) 256 = Inl err)"
  shows "\<exists>e. bufferPayload_item m h ip = Inl e"
  using assms by (auto simp: bufferPayload_item_def Let_def split: option.splits sum.splits)

lemma hex_DecodeString_token32:
  "hex_DecodeString token32 =
     Some [0, 1, 2, 3, 4, 5, 6, 7, 8, 9, 10, 11, 12, 13, 14, 15, 16, 17, 18, 19, 20, 21,
           22, 23, 24, 25, 26, 27, 28, 29, 30, 31]"
  by (simp add: token32_def fromHexChar_def)

text \<open>Claim C8: when the token decodes and the payload marshals, the item is produced and
  its last byte, the priority, is the payload's priority if that is 5 or 10, and 5
  otherwise.\<close>

theorem bufferPayload_item_priority:
  assumes "hex_DecodeString (Token (h (Payload ip))) = Some token"
      and "m (h (Payload ip)) 256 = Inr payloadBytes"
  shows "\<exists>item h'. bufferPayload_item m h ip = Inr (item, h') \<and>
           length item = 3 + length token + length payloadBytes + 4 + 4 + 1 \<and>
           last item = (if Priority (h (Payload ip)) = 5 \<or> Priority (h (Payload ip)) = 10
                        then Priority (h (Payload ip)) else 5)"
  using assms by (simp add: bufferPayload_item_Inr [where h = h and ip = ip and m = m])

theorem bufferPayload_item_priority_witness:
  "hex_DecodeString (Token (sample_heap 7)) =
     Some [0, 1, 2, 3, 4, 5, 6, 7, 8, 9, 10, 11, 12, 13, 14, 15, 16, 17, 18, 19, 20, 21,
           22, 23, 24, 25, 26, 27, 28, 29, 30, 31] \<and>
   sample_marshal (sample_heap 7) 256 = Inr [123, 125] \<and>
   Priority (sample_heap 7) = 7 \<and>
   (\<exists>item h'. bufferPayload_item sample_marshal sample_heap \<lparr>Payload = 7, Id' = 1\<rparr>
                 = Inr (item, h') \<and> length item = 46 \<and> last item = 5)"
proof -
  have tok: "hex_DecodeString (Token (sample_heap (Payload \<lparr>Payload = 7, Id' = 1\<rparr>))) =
     Some [0, 1, 2, 3, 4, 5, 6, 7, 8, 9, 10, 11, 12, 13, 14, 15, 16, 17, 18, 19, 20, 21,
           22, 23, 24, 25, 26, 27, 28, 29, 30, 31]"
    by (simp add: sample_heap_def hex_DecodeString_token32)
  have mar: "sample_marshal (sample_heap (Payload \<lparr>Payload = 7, Id' = 1\<rparr>)) 256 = Inr [123, 125]"
    by (simp add: sample_marshal_def)
  have pri: "Priority (sample_heap 7) = 7"
    by (simp add: sample_heap_def)
  from bufferPayload_item_priority
         [where h = sample_heap and ip = "\<lparr>Payload = 7, Id' = 1\<rparr>" and m = sample_marshal,
          OF tok mar] tok mar pri
  show ?thesis
    by simp
qed

section \<open>Buffering one notification\<close>

lemma flushBufferToSocket_headed:
  assumes "headed c"
  obtains c' where "flushBufferToSocket c = Some c'"
    and "length (inFlightByteBuffer c') = length (inFlightByteBuffer c)"
    and "inFlightPayloadBuffer c' = inFlightPayloadBuffer c"
    and "inFlightPayloadBufferSize c' = inFlightPayloadBufferSize c"
    and "payloadIdCounter c' = payloadIdCounter c"
proof (cases "5 < length (inFlightByteBuffer c)")
  case True
  show ?thesis
    by (rule that [OF flushBufferToSocket_writes [OF True]]) (use True in simp_all)
next
  case False
  with assms have "length (inFlightByteBuffer c) = 0 \<or> length (inFlightByteBuffer c) = 5"
    by (auto simp: headed_def)
  from flushBufferToSocket_idle [OF this] show ?thesis
    by (rule that) simp_all
qed

lemma Disconnect_headed:
  assumes "headed c"
  obtains c' where "Disconnect c = Some c'"
    and "length (inFlightByteBuffer c') = length (inFlightByteBuffer c)"
    and "inFlightPayloadBuffer c' = inFlightPayloadBuffer c"
    and "inFlightPayloadBufferSize c' = inFlightPayloadBufferSize c"
    and "payloadIdCounter c' = payloadIdCounter c"
proof -
  from assms obtain c1 where "flushBufferToSocket c = Some c1"
    and "length (inFlightByteBuffer c1) = length (inFlightByteBuffer c)"
    and "inFlightPayloadBuffer c1 = inFlightPayloadBuffer c"
    and "inFlightPayloadBufferSize c1 = inFlightPayloadBufferSize c"
    and "payloadIdCounter c1 = payloadIdCounter c"
    by (rule flushBufferToSocket_headed)
  then show ?thesis
    by (intro that [of "noFlushDisconnect c1"]) (simp_all add: Disconnect_def noFlushDisconnect_def)
qed

lemma bufferPayload_headed:
  assumes "headed c"
  obtains c' where "bufferPayload m ip (h, c) = Some (store_after m h ip, c')"
    and "headed c'"
    and "inFlightPayloadBuffer c' = inFlightPayloadBuffer c"
    and "inFlightPayloadBufferSize c' = inFlightPayloadBufferSize c"
    and "payloadIdCounter c' = payloadIdCounter c"
proof (cases "bufferPayload_item m h ip")
  case (Inl e)
  from assms obtain c1 where "Disconnect c = Some c1"
    and "length (inFlightByteBuffer c1) = length (inFlightByteBuffer c)"
    and "inFlightPayloadBuffer c1 = inFlightPayloadBuffer c"
    and "inFlightPayloadBufferSize c1 = inFlightPayloadBufferSize c"
    and "payloadIdCounter c1 = payloadIdCounter c"
    by (rule Disconnect_headed)
  with Inl assms show ?thesis
    by (intro that [of c1]) (simp_all add: bufferPayload_def store_after_def headed_def)
next
  case (Inr r)
  obtain item h' where r: "r = (item, h')" by (cases r)
  from assms obtain c1 where fl: "flushBufferToSocket c = Some c1"
    and "length (inFlightByteBuffer c1) = length (inFlightByteBuffer c)"
    and "inFlightPayloadBuffer c1 = inFlightPayloadBuffer c"
    and "inFlightPayloadBufferSize c1 = inFlightPayloadBufferSize c"
    and "payloadIdCounter c1 = payloadIdCounter c"
    by (rule flushBufferToSocket_headed)
  note c1 = this
  let ?c' = "snd (the (bufferPayload m ip (h, c)))"
  have res: "bufferPayload m ip (h, c) = Some (h', ?c')"
    using Inr r fl by (simp add: bufferPayload_def Let_def)
  have fields: "headed ?c' \<and> inFlightPayloadBuffer ?c' = inFlightPayloadBuffer c \<and>
    inFlightPayloadBufferSize ?c' = inFlightPayloadBufferSize c \<and>
    payloadIdCounter ?c' = payloadIdCounter c"
    using Inr r fl c1 assms
    by (auto simp: bufferPayload_def Let_def writeItem_def writeHeader_def headed_def)
  from res fields Inr r show ?thesis
    by (intro that [of ?c']) (simp_all add: store_after_def)
qed

lemma store_after_eq:
  "store_after m h ip =
     (if hex_DecodeString (Token (h (Payload ip))) \<noteq> None \<and> \<not> isl (m (h (Payload ip)) 256)
         \<and> Priority (h (Payload ip)) \<noteq> 5 \<and> Priority (h (Payload ip)) \<noteq> 10
      then h(Payload ip := (h (Payload ip))\<lparr>Priority := 5\<rparr>) else h)"
  by (auto simp: store_after_def bufferPayload_item_def Let_def split: option.splits sum.splits)

lemma bufferPayload_teardown:
  assumes "hex_DecodeString (Token (h (Payload ip))) = None \<or> isl (m (h (Payload ip)) 256)"
  shows "bufferPayload m ip (h, c) = map_option (Pair h) (Disconnect c)"
  using assms
  by (auto simp: bufferPayload_def bufferPayload_item_def Let_def split: option.splits sum.splits)

lemma headed_NewAPNSConnection: "headed (NewAPNSConnection sock)"
  by (simp add: headed_def NewAPNSConnection_def socketAPNSConnection_def
      socketAPNSConnectionBufSize_def)

lemma headed_socketAPNSConnectionBufSize: "headed (socketAPNSConnectionBufSize sock n)"
  by (simp add: headed_def socketAPNSConnectionBufSize_def)

text \<open>Claim C9 as stated fails: a payload submitted with priority 7 has priority 5 in the
  caller's object once it has been encoded.\<close>

theorem bufferPayload_priority_counterexample:
  "Priority (sample_heap 7) = 7 \<and>
   Priority (fst (the (bufferPayload sample_marshal \<lparr>Payload = 7, Id' = 1\<rparr>
                         (sample_heap, NewAPNSConnection fresh_socket))) 7) = 5"
proof -
  obtain c' where "bufferPayload sample_marshal \<lparr>Payload = 7, Id' = 1\<rparr>
      (sample_heap, NewAPNSConnection fresh_socket)
    = Some (store_after sample_marshal sample_heap \<lparr>Payload = 7, Id' = 1\<rparr>, c')"
    using headed_NewAPNSConnection by (rule bufferPayload_headed)
  then show ?thesis
    by (simp add: store_after_eq sample_heap_def sample_marshal_def hex_DecodeString_token32)
qed

text \<open>Claim C9, amended: on a well-formed frame buffer the call returns, and the store it
  leaves differs from the one it was given in one place at most: the priority of the
  submitted payload is overwritten with 5 when the token decoded, the payload marshalled
  and the priority was neither 5 nor 10. Tokens and expiration times are never touched,
  and when the token does not decode or the payload does not marshal the connection is
  torn down by a disconnect.\<close>

theorem bufferPayload_store:
  assumes "headed c"
  shows "\<exists>h' c'. bufferPayload m ip (h, c) = Some (h', c') \<and>
           h' = (if hex_DecodeString (Token (h (Payload ip))) \<noteq> None
                    \<and> \<not> isl (m (h (Payload ip)) 256)
                    \<and> Priority (h (Payload ip)) \<noteq> 5 \<and> Priority (h (Payload ip)) \<noteq> 10
                 then h(Payload ip := (h (Payload ip))\<lparr>Priority := 5\<rparr>) else h) \<and>
           (\<forall>r. Token (h' r) = Token (h r) \<and> ExpirationTime (h' r) = ExpirationTime (h r)) \<and>
           (if hex_DecodeString (Token (h (Payload ip))) = None \<or> isl (m (h (Payload ip)) 256)
            then Some c' = Disconnect c else True)"
proof -
  from assms obtain c' where res: "bufferPayload m ip (h, c) = Some (store_after m h ip, c')"
    by (rule bufferPayload_headed)
  have same: "\<forall>r. Token (store_after m h ip r) = Token (h r) \<and>
                  ExpirationTime (store_after m h ip r) = ExpirationTime (h r)"
    by (simp add: store_after_eq)
  have down: "Some c' = Disconnect c"
    if "hex_DecodeString (Token (h (Payload ip))) = None \<or> isl (m (h (Payload ip)) 256)"
    using bufferPayload_teardown [of h ip m c, OF that] res by (cases "Disconnect c") auto
  from res same down show ?thesis
    by (auto simp: store_after_eq)
qed

theorem bufferPayload_store_witness:
  "headed (NewAPNSConnection fresh_socket) \<and>
   (\<exists>h' c'. bufferPayload sample_marshal \<lparr>Payload = 7, Id' = 1\<rparr>
                 (sample_heap, NewAPNSConnection fresh_socket) = Some (h', c') \<and>
            h' = sample_heap(7 := (sample_heap 7)\<lparr>Priority := 5\<rparr>) \<and>
            Token (h' 7) = token32 \<and> ExpirationTime (h' 7) = 3600)"
proof -
  have ok: "headed (NewAPNSConnection fresh_socket)"
    by (rule headed_NewAPNSConnection)
  from bufferPayload_store
         [where c = "NewAPNSConnection fresh_socket" and m = sample_marshal
            and ip = "\<lparr>Payload = 7, Id' = 1\<rparr>" and h = sample_heap, OF ok] ok
  show ?thesis
    by (auto simp: sample_heap_def sample_marshal_def hex_DecodeString_token32)
qed

section \<open>Notification ids\<close>

lemma unat_max_uint32: "unat (- 1 :: uint32) = 4294967295"
  by (simp add: unsigned_minus_1_eq_mask mask_eq_exp_minus_1)

lemma unat_nextPayloadId:
  "unat (fst (nextPayloadId c)) = unat (payloadIdCounter c) mod 4294967295 + 1"
proof (cases "payloadIdCounter c = - 1")
  case True
  then show ?thesis by (simp add: nextPayloadId_def Let_def unat_max_uint32)
next
  case False
  then have ne: "payloadIdCounter c + 1 \<noteq> 0"
    by (metis add.commute add_eq_0_iff)
  from False have "unat (payloadIdCounter c) \<noteq> unat (- 1 :: uint32)"
    by (simp only: word_unat_eq_iff) simp
  moreover have "unat (payloadIdCounter c) < 2 ^ 32"
    using unsigned_less [of "payloadIdCounter c"] by simp
  ultimately have lt: "unat (payloadIdCounter c) < 4294967295"
    by (simp add: unat_max_uint32)
  then have "unat (payloadIdCounter c + 1) = unat (payloadIdCounter c) + 1"
    by (simp add: unat_word_ariths)
  with ne lt show ?thesis by (simp add: nextPayloadId_def Let_def)
qed

lemma payloadIdCounter_nextPayloadId:
  "payloadIdCounter (snd (nextPayloadId c)) = fst (nextPayloadId c)"
  by (simp add: nextPayloadId_def Let_def)

lemma assignIds_Suc:
  "assignIds (Suc n) c = fst (nextPayloadId c) # assignIds n (snd (nextPayloadId c))"
  by (simp add: split_def Let_def)

lemma length_assignIds [simp]: "length (assignIds n c) = n"
  by (induction n arbitrary: c) (simp_all add: assignIds_Suc del: assignIds.simps(2))

lemma mod_step:
  "(k mod M + 1 + j) mod M = (k + Suc j) mod (M :: nat)"
proof -
  have "(k mod M + (1 + j)) mod M = (k + (1 + j)) mod M"
    by (rule mod_add_left_eq)
  moreover have "k mod M + 1 + j = k mod M + (1 + j)" and "k + Suc j = k + (1 + j)"
    by simp_all
  ultimately show ?thesis by (simp only:)
qed

lemma unat_assignIds:
  "i < n \<Longrightarrow> unat (assignIds n c ! i) = (unat (payloadIdCounter c) + i) mod 4294967295 + 1"
proof (induction n arbitrary: c i)
  case 0
  then show ?case by simp
next
  case (Suc n)
  show ?case
  proof (cases i)
    case 0
    then show ?thesis by (simp add: assignIds_Suc unat_nextPayloadId del: assignIds.simps(2))
  next
    case (Suc j)
    with Suc.prems have "j < n" by simp
    from Suc.IH [OF this, of "snd (nextPayloadId c)"]
    have "unat (assignIds (Suc n) c ! i)
            = (unat (payloadIdCounter c) mod 4294967295 + 1 + j) mod 4294967295 + 1"
      using Suc by (simp add: assignIds_Suc payloadIdCounter_nextPayloadId unat_nextPayloadId del: assignIds.simps(2))
    also have "(unat (payloadIdCounter c) mod 4294967295 + 1 + j) mod 4294967295
                 = (unat (payloadIdCounter c) + i) mod 4294967295"
      using Suc by (simp only: mod_step)
    finally show ?thesis .
  qed
qed

lemma payloadIdCounter_fresh: "payloadIdCounter (socketAPNSConnectionBufSize sock n) = 0"
  by (simp add: socketAPNSConnectionBufSize_def)

lemma unat_assignIds_fresh:
  "i < n \<Longrightarrow> unat (assignIds n (socketAPNSConnectionBufSize sock cap) ! i) = i mod 4294967295 + 1"
  by (simp add: unat_assignIds payloadIdCounter_fresh)

lemma payloadIdCounter_NewAPNSConnection: "payloadIdCounter (NewAPNSConnection sock) = 0"
  by (simp add: NewAPNSConnection_def socketAPNSConnection_def payloadIdCounter_fresh)

lemma assignIds_nonzero: "i < n \<Longrightarrow> assignIds n c ! i \<noteq> 0"
proof
  assume "i < n" and "assignIds n c ! i = 0"
  then have "unat (0 :: uint32) = (unat (payloadIdCounter c) + i) mod 4294967295 + 1"
    using unat_assignIds [of i n c] by simp
  then show False by simp
qed

lemma unat_lt_uint32: "unat (w :: uint32) < 4294967296"
  using unsigned_less [of w] by simp

lemma assignIds_next:
  assumes "Suc i < n"
  shows "assignIds n c ! Suc i =
           (if assignIds n c ! i = - 1 then 1 else assignIds n c ! i + 1)"
proof -
  let ?k = "unat (payloadIdCounter c) + i"
  from assms have i: "i < n" by simp
  have cur: "unat (assignIds n c ! i) = ?k mod 4294967295 + 1"
    using i by (rule unat_assignIds)
  have nxt: "unat (assignIds n c ! Suc i) = Suc ?k mod 4294967295 + 1"
    using unat_assignIds [OF assms, of c] by simp
  show ?thesis
  proof (cases "assignIds n c ! i = - 1")
    case True
    with cur have "Suc (?k mod 4294967295) = 4294967295"
      by (simp add: unat_max_uint32)
    then have "Suc ?k mod 4294967295 = 0"
      by (simp add: mod_Suc)
    with nxt have "unat (assignIds n c ! Suc i) = unat (1 :: uint32)" by simp
    then have "assignIds n c ! Suc i = 1" by (simp only: word_unat_eq_iff)
    with True show ?thesis by simp
  next
    case False
    then have "unat (assignIds n c ! i) \<noteq> 4294967295"
      by (simp only: word_unat_eq_iff unat_max_uint32) simp
    with cur have small: "Suc (?k mod 4294967295) \<noteq> 4294967295" by simp
    then have "Suc ?k mod 4294967295 = Suc (?k mod 4294967295)"
      by (simp add: mod_Suc)
    with nxt cur have eq: "unat (assignIds n c ! Suc i) = unat (assignIds n c ! i) + 1"
      by simp
    have "unat (assignIds n c ! i) + 1 < 4294967296"
      using unat_lt_uint32 [of "assignIds n c ! Suc i"] eq by simp
    then have "unat (assignIds n c ! i + 1) = unat (assignIds n c ! i) + 1"
      by (simp add: unat_word_ariths)
    with eq have "unat (assignIds n c ! Suc i) = unat (assignIds n c ! i + 1)" by simp
    then have "assignIds n c ! Suc i = assignIds n c ! i + 1" by (simp only: word_unat_eq_iff)
    with False show ?thesis by simp
  qed
qed

lemma assignIds_distinct:
  assumes "i < j" and "j < n" and "j - i < 4294967295"
  shows "assignIds n c ! i \<noteq> assignIds n c ! j"
proof
  assume same: "assignIds n c ! i = assignIds n c ! j"
  let ?k = "unat (payloadIdCounter c)"
  from assms have "i < n" by simp
  from unat_assignIds [OF this, of c] unat_assignIds [OF assms(2), of c] same
  have "(?k + j) mod 4294967295 = (?k + i) mod 4294967295" by simp
  moreover have "?k + i \<le> ?k + j" using assms by simp
  ultimately have "4294967295 dvd (?k + j) - (?k + i)"
    by (simp only: mod_eq_dvd_iff_nat)
  then have "(4294967295 :: nat) dvd j - i" by simp
  moreover have "0 < j - i" using assms by simp
  ultimately have "4294967295 \<le> j - i" by (rule dvd_imp_le)
  with assms show False by simp
qed

lemma assignIds_repeats:
  assumes "i + 4294967295 < n"
  shows "assignIds n c ! (i + 4294967295) = assignIds n c ! i"
proof -
  from assms have "i < n" by simp
  from unat_assignIds [OF this, of c] unat_assignIds [OF assms, of c]
  have "unat (assignIds n c ! (i + 4294967295)) = unat (assignIds n c ! i)"
    by (simp add: add.assoc [symmetric])
  then show ?thesis by (simp only: word_unat_eq_iff)
qed

text \<open>Claim C6 as stated fails: on a connection made by the public constructor the
  submission number \<open>2 ^ 32\<close> is given the id 1, the id of the first submission.\<close>

theorem assignIds_repeat_counterexample:
  "assignIds 4294967296 (NewAPNSConnection fresh_socket) ! 4294967295 =
     assignIds 4294967296 (NewAPNSConnection fresh_socket) ! 0 \<and>
   assignIds 4294967296 (NewAPNSConnection fresh_socket) ! 0 = 1"
proof -
  have "(0 :: nat) + 4294967295 < 4294967296" by simp
  from assignIds_repeats [OF this, of "NewAPNSConnection fresh_socket"]
  have rep: "assignIds 4294967296 (NewAPNSConnection fresh_socket) ! 4294967295 =
     assignIds 4294967296 (NewAPNSConnection fresh_socket) ! 0"
    by simp
  have "(0 :: nat) < 4294967296" by simp
  from unat_assignIds [OF this, of "NewAPNSConnection fresh_socket"]
  have "unat (assignIds 4294967296 (NewAPNSConnection fresh_socket) ! 0) = unat (1 :: uint32)"
    by (simp add: payloadIdCounter_NewAPNSConnection)
  then have "assignIds 4294967296 (NewAPNSConnection fresh_socket) ! 0 = 1"
    by (simp only: word_unat_eq_iff)
  with rep show ?thesis by simp
qed

text \<open>Claim C6, amended: the ids of successive submissions are never zero; each is the
  counter plus one, or 1 when the counter holds the 32-bit maximum, so that they start
  at 1 on a new connection, go up by one and wrap from the maximum to 1; and two
  submissions less than \<open>2 ^ 32 - 1\<close> apart have different ids. (Ids do repeat at
  a distance of \<open>2 ^ 32 - 1\<close> submissions.)\<close>

theorem assignIds_properties:
  "(\<forall>i. i < n \<longrightarrow> assignIds n c ! i \<noteq> 0) \<and>
   (0 < n \<longrightarrow> assignIds n (socketAPNSConnectionBufSize sock cap) ! 0 = 1) \<and>
   (0 < n \<longrightarrow> assignIds n (NewAPNSConnection sock) ! 0 = 1) \<and>
   (0 < n \<longrightarrow> assignIds n c ! 0 =
      (if payloadIdCounter c = - 1 then 1 else payloadIdCounter c + 1)) \<and>
   (\<forall>i. Suc i < n \<longrightarrow>
      assignIds n c ! Suc i = (if assignIds n c ! i = - 1 then 1 else assignIds n c ! i + 1)) \<and>
   (\<forall>i j. i < j \<and> j < n \<and> j - i < 4294967295 \<longrightarrow>
      assignIds n c ! i \<noteq> assignIds n c ! j) \<and>
   (\<forall>i. i + 4294967295 < n \<longrightarrow> assignIds n c ! (i + 4294967295) = assignIds n c ! i)"
proof -
  have first: "assignIds n d ! 0 = (if payloadIdCounter d = - 1 then 1 else payloadIdCounter d + 1)"
    if "0 < n" for d
  proof -
    from that obtain k where "n = Suc k" by (cases n) auto
    then show ?thesis
      by (simp add: assignIds_Suc nextPayloadId_def Let_def del: assignIds.simps(2))
        (metis add.commute add_eq_0_iff)
  qed
  show ?thesis
    using first [of c] first [of "socketAPNSConnectionBufSize sock cap"]
      first [of "NewAPNSConnection sock"]
    by (simp add: assignIds_nonzero assignIds_next assignIds_distinct assignIds_repeats
        payloadIdCounter_fresh payloadIdCounter_NewAPNSConnection)
qed

theorem assignIds_properties_witness:
  "assignIds 3 wrapping_connection = [4294967295, 1, 2] \<and>
   assignIds 3 (NewAPNSConnection fresh_socket) ! 0 = 1 \<and>
   assignIds 3 wrapping_connection ! 0 \<noteq> 0 \<and>
   assignIds 3 wrapping_connection ! 1 \<noteq> 0 \<and>
   assignIds 3 wrapping_connection ! 0 = payloadIdCounter wrapping_connection + 1 \<and>
   assignIds 3 wrapping_connection ! Suc 0 = 1 \<and>
   assignIds 3 wrapping_connection ! Suc 1 = assignIds 3 wrapping_connection ! 1 + 1 \<and>
   assignIds 3 wrapping_connection ! 0 \<noteq> assignIds 3 wrapping_connection ! 2"
proof -
  have ids: "assignIds 3 wrapping_connection = [4294967295, 1, 2]"
    by (simp add: numeral_3_eq_3 wrapping_connection_def nextPayloadId_def Let_def)
  have cnt: "payloadIdCounter wrapping_connection = 4294967294"
    by (simp add: wrapping_connection_def)
  from assignIds_properties [of 3 wrapping_connection fresh_socket 0] ids cnt
  show ?thesis
    by simp
qed

section \<open>Runs of the send listener\<close>

lemma assignIds_cong:
  "payloadIdCounter c = payloadIdCounter d \<Longrightarrow> assignIds n c = assignIds n d"
proof (induction n arbitrary: c d)
  case 0
  then show ?case by simp
next
  case (Suc n)
  from Suc.prems have "fst (nextPayloadId c) = fst (nextPayloadId d)"
    by (simp add: nextPayloadId_def Let_def)
  moreover from this have "assignIds n (snd (nextPayloadId c)) = assignIds n (snd (nextPayloadId d))"
    by (intro Suc.IH) (simp add: payloadIdCounter_nextPayloadId)
  ultimately show ?case
    by (simp add: assignIds_Suc del: assignIds.simps(2))
qed

text \<open>One submission: the replay buffer gets the new entry at its front and loses its
  last entry when it is over its capacity; the frame buffer stays well formed.\<close>

lemma submit_headed:
  assumes "headed c"
  obtains h' c' where "submit m r (h, c) = Some (h', c')"
    and "headed c'"
    and "inFlightPayloadBufferSize c' = inFlightPayloadBufferSize c"
    and "payloadIdCounter c' = fst (nextPayloadId c)"
    and "inFlightPayloadBuffer c' =
           (if int (Suc (length (inFlightPayloadBuffer c))) > inFlightPayloadBufferSize c
            then butlast (\<lparr>Payload = r, Id' = fst (nextPayloadId c)\<rparr> # inFlightPayloadBuffer c)
            else \<lparr>Payload = r, Id' = fst (nextPayloadId c)\<rparr> # inFlightPayloadBuffer c)"
proof -
  let ?i = "fst (nextPayloadId c)"
  let ?c1 = "snd (nextPayloadId c)"
  let ?obj = "\<lparr>Payload = r, Id' = ?i\<rparr>"
  let ?c2 = "?c1\<lparr>inFlightPayloadBuffer := ?obj # inFlightPayloadBuffer ?c1\<rparr>"
  let ?c3 = "if int (length (inFlightPayloadBuffer ?c2)) > inFlightPayloadBufferSize ?c2
             then ?c2\<lparr>inFlightPayloadBuffer := butlast (inFlightPayloadBuffer ?c2)\<rparr> else ?c2"
  have sub: "submit m r (h, c) = bufferPayload m ?obj (h, ?c3)"
    by (simp add: submit_def Let_def split_def)
  have c1: "inFlightByteBuffer ?c1 = inFlightByteBuffer c"
    "inFlightPayloadBuffer ?c1 = inFlightPayloadBuffer c"
    "inFlightPayloadBufferSize ?c1 = inFlightPayloadBufferSize c"
    "payloadIdCounter ?c1 = ?i"
    by (simp_all add: nextPayloadId_def Let_def)
  have c3: "inFlightByteBuffer ?c3 = inFlightByteBuffer c"
    "inFlightPayloadBufferSize ?c3 = inFlightPayloadBufferSize c"
    "payloadIdCounter ?c3 = ?i"
    "inFlightPayloadBuffer ?c3 =
           (if int (Suc (length (inFlightPayloadBuffer c))) > inFlightPayloadBufferSize c
            then butlast (?obj # inFlightPayloadBuffer c)
            else ?obj # inFlightPayloadBuffer c)"
    using c1 by simp_all
  from assms c3(1) have "headed ?c3" by (simp add: headed_def)
  then obtain c' where "bufferPayload m ?obj (h, ?c3) = Some (store_after m h ?obj, c')"
    and "headed c'"
    and "inFlightPayloadBuffer c' = inFlightPayloadBuffer ?c3"
    and "inFlightPayloadBufferSize c' = inFlightPayloadBufferSize ?c3"
    and "payloadIdCounter c' = payloadIdCounter ?c3"
    by (rule bufferPayload_headed)
  with sub c3 show ?thesis
    by (intro that [of "store_after m h ?obj" c']) (simp_all only:)
qed

lemma sendListener_active:
  assumes "active evs" and "headed c"
    and "int (length (inFlightPayloadBuffer c) + length (submitted evs))
           \<le> inFlightPayloadBufferSize c"
  shows "\<exists>h' c'. sendListener m (h, c) (evs @ rest) = sendListener m (h', c') rest \<and>
           headed c' \<and>
           inFlightPayloadBufferSize c' = inFlightPayloadBufferSize c \<and>
           map Payload (inFlightPayloadBuffer c')
             = rev (submitted evs) @ map Payload (inFlightPayloadBuffer c) \<and>
           map Id' (inFlightPayloadBuffer c')
             = rev (assignIds (length (submitted evs)) c) @ map Id' (inFlightPayloadBuffer c)"
  using assms
proof (induction evs arbitrary: h c)
  case Nil
  then show ?case by auto
next
  case (Cons ev evs)
  show ?case
  proof (cases ev)
    case (SendPayload p)
    with Cons.prems(1) obtain r where p: "p = Some r" by (cases p) auto
    from Cons.prems(2) obtain h1 c1 where sub: "submit m r (h, c) = Some (h1, c1)"
      and hd1: "headed c1"
      and sz1: "inFlightPayloadBufferSize c1 = inFlightPayloadBufferSize c"
      and ct1: "payloadIdCounter c1 = fst (nextPayloadId c)"
      and pb1: "inFlightPayloadBuffer c1 =
           (if int (Suc (length (inFlightPayloadBuffer c))) > inFlightPayloadBufferSize c
            then butlast (\<lparr>Payload = r, Id' = fst (nextPayloadId c)\<rparr> # inFlightPayloadBuffer c)
            else \<lparr>Payload = r, Id' = fst (nextPayloadId c)\<rparr> # inFlightPayloadBuffer c)"
      by (rule submit_headed)
    from Cons.prems(3) SendPayload p
    have room: "int (Suc (length (inFlightPayloadBuffer c)) + length (submitted evs))
                  \<le> inFlightPayloadBufferSize c"
      by simp
    then have pb1': "inFlightPayloadBuffer c1 =
        \<lparr>Payload = r, Id' = fst (nextPayloadId c)\<rparr> # inFlightPayloadBuffer c"
      using pb1 by simp
    from Cons.prems(1) SendPayload p have act: "active evs" by simp
    from room pb1' sz1
    have "int (length (inFlightPayloadBuffer c1) + length (submitted evs))
            \<le> inFlightPayloadBufferSize c1"
      by simp
    from Cons.IH [OF act hd1 this, of h1]
    obtain h' c' where run: "sendListener m (h1, c1) (evs @ rest) = sendListener m (h', c') rest"
      and hd': "headed c'"
      and sz': "inFlightPayloadBufferSize c' = inFlightPayloadBufferSize c1"
      and ps': "map Payload (inFlightPayloadBuffer c')
             = rev (submitted evs) @ map Payload (inFlightPayloadBuffer c1)"
      and ids': "map Id' (inFlightPayloadBuffer c')
             = rev (assignIds (length (submitted evs)) c1) @ map Id' (inFlightPayloadBuffer c1)"
      by blast
    have "assignIds (length (submitted evs)) c1
            = assignIds (length (submitted evs)) (snd (nextPayloadId c))"
      by (rule assignIds_cong) (simp add: ct1 payloadIdCounter_nextPayloadId)
    with ids' pb1' have ids'': "map Id' (inFlightPayloadBuffer c')
             = rev (assignIds (Suc (length (submitted evs))) c) @ map Id' (inFlightPayloadBuffer c)"
      by (simp add: assignIds_Suc del: assignIds.simps(2))
    from run sub SendPayload p
    have "sendListener m (h, c) ((ev # evs) @ rest) = sendListener m (h', c') rest"
      by simp
    with hd' sz' sz1 ps' pb1' ids'' SendPayload p show ?thesis
      by (intro exI [of _ h'] exI [of _ c']) simp
  next
    case TimeoutFired
    from Cons.prems(2) obtain c1 where fl: "flushBufferToSocket c = Some c1"
      and len1: "length (inFlightByteBuffer c1) = length (inFlightByteBuffer c)"
      and pb1: "inFlightPayloadBuffer c1 = inFlightPayloadBuffer c"
      and sz1: "inFlightPayloadBufferSize c1 = inFlightPayloadBufferSize c"
      and ct1: "payloadIdCounter c1 = payloadIdCounter c"
      by (rule flushBufferToSocket_headed)
    from Cons.prems(2) len1 have hd1: "headed c1" by (simp add: headed_def)
    from Cons.prems(1) TimeoutFired have act: "active evs" by simp
    from Cons.prems(3) TimeoutFired pb1 sz1
    have "int (length (inFlightPayloadBuffer c1) + length (submitted evs))
            \<le> inFlightPayloadBufferSize c1"
      by simp
    from Cons.IH [OF act hd1 this, of h]
    obtain h' c' where run: "sendListener m (h, c1) (evs @ rest) = sendListener m (h', c') rest"
      and hd': "headed c'"
      and sz': "inFlightPayloadBufferSize c' = inFlightPayloadBufferSize c1"
      and ps': "map Payload (inFlightPayloadBuffer c')
             = rev (submitted evs) @ map Payload (inFlightPayloadBuffer c1)"
      and ids': "map Id' (inFlightPayloadBuffer c')
             = rev (assignIds (length (submitted evs)) c1) @ map Id' (inFlightPayloadBuffer c1)"
      by blast
    have same: "assignIds (length (submitted evs)) c1 = assignIds (length (submitted evs)) c"
      using ct1 by (rule assignIds_cong)
    from run fl TimeoutFired
    have "sendListener m (h, c) ((ev # evs) @ rest) = sendListener m (h', c') rest"
      by simp
    with hd' sz' sz1 ps' pb1 ids' same TimeoutFired show ?thesis
      by (intro exI [of _ h'] exI [of _ c']) simp
  next
    case (AppleErrorReceived e)
    with Cons.prems(1) show ?thesis by simp
  qed
qed

section \<open>Gathering the unsent payloads\<close>

lemma gatherUnsent_found:
  assumes "messageId \<noteq> 0" and "Id' e = messageId"
    and "\<forall>x \<in> set newer. Id' x \<noteq> messageId"
  shows "gatherUnsent messageId (newer @ e # older) unsent
           = (rev (map Payload newer) @ unsent, Some (Payload e))"
  using assms by (induction newer arbitrary: unsent) simp_all

lemma gatherUnsent_missing:
  assumes "messageId = 0 \<or> (\<forall>x \<in> set entries. Id' x \<noteq> messageId)"
  shows "gatherUnsent messageId entries unsent = (rev (map Payload entries) @ unsent, None)"
  using assms by (induction entries arbitrary: unsent) auto

lemma connectionClose_overflow:
  "UnsentPayloadBufferOverflow (connectionClose e c) =
     (UnsentPayloads (connectionClose e c) \<noteq> [] \<and> ErrorPayload (connectionClose e c) = None)"
  by (simp add: connectionClose_def split_def Let_def)

lemma connectionClose_Error: "Error (connectionClose e c) = e"
  by (simp add: connectionClose_def split_def Let_def)

lemma sendListener_Closed:
  "sendListener m hc evs = (Closed r, hc') \<Longrightarrow> \<exists>e. r = connectionClose e (snd hc')"
  by (induction m hc evs rule: sendListener.induct) (auto split: option.splits)

text \<open>The close report when the replay buffer holds the entries \<open>es\<close>, oldest first,
  and the error names the entry at position \<open>j\<close>, whose id no newer entry has.\<close>

lemma connectionClose_found:
  assumes buf: "inFlightPayloadBuffer c = rev es"
    and j: "j < length es"
    and mid: "MessageId e = Id' (es ! j)" "MessageId e \<noteq> 0"
    and newer: "\<forall>i. j < i \<and> i < length es \<longrightarrow> Id' (es ! i) \<noteq> Id' (es ! j)"
  shows "connectionClose e c =
           \<lparr>UnsentPayloads = drop (Suc j) (map Payload es), Error = e,
            ErrorPayload = Some (Payload (es ! j)), UnsentPayloadBufferOverflow = False\<rparr>"
proof -
  from j have "es = take j es @ es ! j # drop (Suc j) es"
    by (rule id_take_nth_drop)
  then have split: "rev es = rev (drop (Suc j) es) @ es ! j # rev (take j es)"
    by (metis append.assoc append_Cons append_Nil rev.simps(2) rev_append)
  have "\<forall>x \<in> set (rev (drop (Suc j) es)). Id' x \<noteq> MessageId e"
  proof
    fix x assume "x \<in> set (rev (drop (Suc j) es))"
    then have "x \<in> set (drop (Suc j) es)" by simp
    then obtain i where "i < length (drop (Suc j) es)" and "x = drop (Suc j) es ! i"
      by (auto simp: in_set_conv_nth)
    then have "x = es ! (Suc j + i)" and "Suc j + i < length es" by simp_all
    with newer mid show "Id' x \<noteq> MessageId e" by simp
  qed
  from gatherUnsent_found [OF mid(2) mid(1) [symmetric] this, of "rev (take j es)" "[]"]
  have "gatherUnsent (MessageId e) (rev es) [] =
          (drop (Suc j) (map Payload es), Some (Payload (es ! j)))"
    by (simp add: split [symmetric] rev_map [symmetric] drop_map)
  with buf show ?thesis by (simp add: connectionClose_def)
qed

lemma connectionClose_shutdown:
  assumes "MessageId e = 0"
  shows "connectionClose e c =
           \<lparr>UnsentPayloads = rev (map Payload (inFlightPayloadBuffer c)), Error = e,
            ErrorPayload = None,
            UnsentPayloadBufferOverflow = (inFlightPayloadBuffer c \<noteq> [])\<rparr>"
  using assms gatherUnsent_missing [of "MessageId e" "inFlightPayloadBuffer c" "[]"]
  by (simp add: connectionClose_def)

section \<open>The close report\<close>

lemmas run_defs = submit_def nextPayloadId_def Let_def NewAPNSConnection_def
  socketAPNSConnection_def socketAPNSConnectionBufSize_def bufferPayload_def
  bufferPayload_item_def sample_heap_def sample_marshal_def hex_DecodeString_token32
  TCP_FRAME_MAX_def flushBufferToSocket_def writeItem_def writeHeader_def
  connectionClose_def closeListener_def be16_def be32_def fresh_socket_def
  socket_Write_def next_outcome_def

text \<open>After submissions and timer ticks that fit the capacity, a new connection retains
  every submitted payload, newest first, with the id it was given.\<close>

lemma sendListener_retains:
  assumes "active evs" and "int (length (submitted evs)) \<le> cap"
  obtains h' c' where
    "sendListener m (h, socketAPNSConnectionBufSize sock cap) (evs @ rest)
       = sendListener m (h', c') rest"
    and "map Payload (rev (inFlightPayloadBuffer c')) = submitted evs"
    and "map Id' (rev (inFlightPayloadBuffer c'))
           = assignIds (length (submitted evs)) (socketAPNSConnectionBufSize sock cap)"
proof -
  let ?c = "socketAPNSConnectionBufSize sock cap"
  have empty: "inFlightPayloadBuffer ?c = []" and size: "inFlightPayloadBufferSize ?c = cap"
    by (simp_all add: socketAPNSConnectionBufSize_def)
  from assms(2) have "int (length (inFlightPayloadBuffer ?c) + length (submitted evs))
      \<le> inFlightPayloadBufferSize ?c"
    by (simp add: empty size)
  from sendListener_active [OF assms(1) headed_socketAPNSConnectionBufSize this, of m h rest]
  obtain h' c' where "sendListener m (h, ?c) (evs @ rest) = sendListener m (h', c') rest"
    and "map Payload (inFlightPayloadBuffer c') = rev (submitted evs)"
    and "map Id' (inFlightPayloadBuffer c') = rev (assignIds (length (submitted evs)) ?c)"
    by (auto simp: empty)
  then show ?thesis
    by (intro that [of h' c']) (simp_all add: rev_map [symmetric])
qed

text \<open>Claim C1 as stated fails: one payload is submitted to a connection of capacity
  10000, nothing is evicted, the read of the close listener fails, and the overflow flag
  of the close report is set.\<close>

theorem sendListener_overflow_counterexample:
  "active [SendPayload (Some 7)] \<and>
   int (length (submitted [SendPayload (Some 7)]))
     \<le> inFlightPayloadBufferSize (NewAPNSConnection fresh_socket) \<and>
   inFlightPayloadBuffer (snd (snd (sendListener sample_marshal
       (sample_heap, NewAPNSConnection fresh_socket)
       [SendPayload (Some 7), AppleErrorReceived (closeListener (ReadError ''EOF''))])))
     = [\<lparr>Payload = 7, Id' = 1\<rparr>] \<and>
   fst (sendListener sample_marshal (sample_heap, NewAPNSConnection fresh_socket)
          [SendPayload (Some 7), AppleErrorReceived (closeListener (ReadError ''EOF''))])
     = Closed \<lparr>UnsentPayloads = [7],
               Error = \<lparr>MessageId = 0, ErrorCode = 10, ErrorString = ''EOF''\<rparr>,
               ErrorPayload = None,
               UnsentPayloadBufferOverflow = True\<rparr>"
  by (simp add: run_defs)

text \<open>Claim C1, amended: in every close report the overflow flag is set exactly when
  some payload is reported unsent and no error payload was found; evictions are not
  recorded. When the read of the close listener fails after submissions that fit the
  capacity, the report carries code 10 (SHUTDOWN in the table) with id 0, no error
  payload, every submitted payload as unsent, in submission order, and the overflow flag
  is set exactly when something was submitted.\<close>

theorem sendListener_read_failure:
  assumes "active evs" and "int (length (submitted evs)) \<le> cap"
  shows "fst (sendListener m (h, socketAPNSConnectionBufSize sock cap)
                (evs @ AppleErrorReceived (closeListener (ReadError msg)) # rest))
           = Closed \<lparr>UnsentPayloads = submitted evs,
                     Error = \<lparr>MessageId = 0, ErrorCode = 10, ErrorString = msg\<rparr>,
                     ErrorPayload = None,
                     UnsentPayloadBufferOverflow = (submitted evs \<noteq> [])\<rparr> \<and>
         response_string 10 = ''SHUTDOWN'' \<and>
         (\<forall>m' hc evs' r hc'. sendListener m' hc evs' = (Closed r, hc') \<longrightarrow>
            UnsentPayloadBufferOverflow r = (UnsentPayloads r \<noteq> [] \<and> ErrorPayload r = None))"
proof (intro conjI allI impI)
  let ?e = "closeListener (ReadError msg)"
  have e: "?e = \<lparr>MessageId = 0, ErrorCode = 10, ErrorString = msg\<rparr>"
    by (simp add: closeListener_def)
  from assms obtain h' c' where
    run: "sendListener m (h, socketAPNSConnectionBufSize sock cap)
            (evs @ AppleErrorReceived ?e # rest)
          = sendListener m (h', c') (AppleErrorReceived ?e # rest)"
    and ps: "map Payload (rev (inFlightPayloadBuffer c')) = submitted evs"
    by (rule sendListener_retains)
  have "MessageId ?e = 0" by (simp add: e)
  from connectionClose_shutdown [OF this, of c'] ps
  have "connectionClose ?e c' =
          \<lparr>UnsentPayloads = submitted evs, Error = ?e, ErrorPayload = None,
           UnsentPayloadBufferOverflow = (inFlightPayloadBuffer c' \<noteq> [])\<rparr>"
    by (simp add: rev_map)
  moreover from ps have "(inFlightPayloadBuffer c' \<noteq> []) = (submitted evs \<noteq> [])"
    by auto
  ultimately show "fst (sendListener m (h, socketAPNSConnectionBufSize sock cap)
                (evs @ AppleErrorReceived ?e # rest))
           = Closed \<lparr>UnsentPayloads = submitted evs,
                     Error = \<lparr>MessageId = 0, ErrorCode = 10, ErrorString = msg\<rparr>,
                     ErrorPayload = None,
                     UnsentPayloadBufferOverflow = (submitted evs \<noteq> [])\<rparr>"
    using run by (simp add: e)
next
  show "response_string 10 = ''SHUTDOWN''"
    by (simp add: response_string_def APPLE_PUSH_RESPONSES_def)
next
  fix m' hc evs' r hc'
  assume "sendListener m' hc evs' = (Closed r, hc')"
  then obtain e where "r = connectionClose e (snd hc')"
    by (auto dest: sendListener_Closed)
  then show "UnsentPayloadBufferOverflow r = (UnsentPayloads r \<noteq> [] \<and> ErrorPayload r = None)"
    by (simp add: connectionClose_overflow)
qed

theorem sendListener_read_failure_witness:
  "active [SendPayload (Some 7), TimeoutFired, SendPayload (Some 10)] \<and>
   int (length (submitted [SendPayload (Some 7), TimeoutFired, SendPayload (Some 10)])) \<le> 2 \<and>
   fst (sendListener sample_marshal (sample_heap, socketAPNSConnectionBufSize fresh_socket 2)
          [SendPayload (Some 7), TimeoutFired, SendPayload (Some 10),
           AppleErrorReceived (closeListener (ReadError ''EOF''))])
     = Closed \<lparr>UnsentPayloads = [7, 10],
               Error = \<lparr>MessageId = 0, ErrorCode = 10, ErrorString = ''EOF''\<rparr>,
               ErrorPayload = None,
               UnsentPayloadBufferOverflow = True\<rparr> \<and>
   sendListener sample_marshal (sample_heap, socketAPNSConnectionBufSize fresh_socket 2)
       [AppleErrorReceived (closeListener (ReadError ''EOF''))]
     = (Closed \<lparr>UnsentPayloads = [],
               Error = \<lparr>MessageId = 0, ErrorCode = 10, ErrorString = ''EOF''\<rparr>,
               ErrorPayload = None,
               UnsentPayloadBufferOverflow = False\<rparr>,
        sample_heap, socketAPNSConnectionBufSize fresh_socket 2) \<and>
   UnsentPayloadBufferOverflow
       \<lparr>UnsentPayloads = [],
        Error = \<lparr>MessageId = 0, ErrorCode = 10, ErrorString = ''EOF''\<rparr>,
        ErrorPayload = None,
        UnsentPayloadBufferOverflow = False\<rparr>
     = ([] \<noteq> ([] :: ref list) \<and> (None :: ref option) = None)"
proof -
  have act: "active [SendPayload (Some 7), TimeoutFired, SendPayload (Some 10)]"
    by simp
  have fit: "int (length (submitted [SendPayload (Some 7), TimeoutFired, SendPayload (Some 10)])) \<le> 2"
    by simp
  have end_only: "sendListener sample_marshal
       (sample_heap, socketAPNSConnectionBufSize fresh_socket 2)
       [AppleErrorReceived (closeListener (ReadError ''EOF''))]
     = (Closed \<lparr>UnsentPayloads = [],
               Error = \<lparr>MessageId = 0, ErrorCode = 10, ErrorString = ''EOF''\<rparr>,
               ErrorPayload = None,
               UnsentPayloadBufferOverflow = False\<rparr>,
        sample_heap, socketAPNSConnectionBufSize fresh_socket 2)"
    by (simp add: closeListener_def connectionClose_def socketAPNSConnectionBufSize_def)
  note inst = sendListener_read_failure
      [OF act fit, of sample_marshal sample_heap fresh_socket "''EOF''" "[]"]
  from inst [THEN conjunct1] inst [THEN conjunct2, THEN conjunct2, rule_format, OF end_only]
    act fit end_only
  show ?thesis
    by (simp add: closeListener_def)
qed

lemma assignIds_fresh_nth:
  assumes "i < n" and "n < 4294967296"
  shows "assignIds n (socketAPNSConnectionBufSize sock cap) ! i = word_of_nat (Suc i)"
proof -
  from assms have "i mod 4294967295 = i" by simp
  with unat_assignIds_fresh [OF assms(1), of sock cap]
  have "unat (assignIds n (socketAPNSConnectionBufSize sock cap) ! i) = Suc i" by simp
  moreover from assms have "unat (word_of_nat (Suc i) :: uint32) = Suc i"
    by (simp only: unat_of_nat) simp
  ultimately show ?thesis by (simp only: word_unat_eq_iff)
qed

text \<open>Claim C3: a new connection of capacity \<open>cap\<close> receives submissions, with timer
  ticks in between, no more than \<open>cap\<close> of them (and fewer than \<open>2 ^ 32\<close>, so that
  no id has been given twice); the peer then reports an error for the id \<open>k\<close>, which
  is the id of submission number \<open>k\<close>. The close report lists as unsent exactly the
  payloads submitted after that one, in submission order, names that payload as the
  error payload, and does not set the overflow flag.\<close>

theorem sendListener_peer_error:
  assumes "active evs"
    and "int (length (submitted evs)) \<le> cap"
    and "length (submitted evs) < 4294967296"
    and "1 \<le> k" and "k \<le> length (submitted evs)"
    and "MessageId e = word_of_nat k"
  shows "fst (sendListener m (h, socketAPNSConnectionBufSize sock cap)
                (evs @ AppleErrorReceived e # rest))
           = Closed \<lparr>UnsentPayloads = drop k (submitted evs),
                     Error = e,
                     ErrorPayload = Some (submitted evs ! (k - 1)),
                     UnsentPayloadBufferOverflow = False\<rparr> \<and>
         assignIds (length (submitted evs)) (socketAPNSConnectionBufSize sock cap) ! (k - 1)
           = word_of_nat k"
proof -
  let ?c = "socketAPNSConnectionBufSize sock cap"
  let ?n = "length (submitted evs)"
  from assms(1,2) obtain h' c' where
    run: "sendListener m (h, ?c) (evs @ AppleErrorReceived e # rest)
          = sendListener m (h', c') (AppleErrorReceived e # rest)"
    and ps: "map Payload (rev (inFlightPayloadBuffer c')) = submitted evs"
    and ids: "map Id' (rev (inFlightPayloadBuffer c')) = assignIds ?n ?c"
    by (rule sendListener_retains)
  let ?es = "rev (inFlightPayloadBuffer c')"
  from ps have len: "length ?es = ?n"
    by (metis length_map)
  from assms(4,5) have j: "k - 1 < ?n" and k: "Suc (k - 1) = k" by simp_all
  have id_at: "Id' (?es ! i) = word_of_nat (Suc i)" if "i < ?n" for i
  proof -
    from that len have "Id' (?es ! i) = map Id' ?es ! i" by simp
    also have "\<dots> = assignIds ?n ?c ! i" by (simp only: ids)
    also have "\<dots> = word_of_nat (Suc i)" using that assms(3) by (rule assignIds_fresh_nth)
    finally show ?thesis .
  qed
  have assigned: "assignIds ?n ?c ! (k - 1) = word_of_nat k"
    using assignIds_fresh_nth [OF j assms(3), of sock cap] k by simp
  have mid: "MessageId e = Id' (?es ! (k - 1))"
    using id_at [OF j] k assms(6) by simp
  have nonzero: "MessageId e \<noteq> 0"
    using assignIds_nonzero [OF j, of ?c] assigned assms(6) by simp
  have newer: "\<forall>i. k - 1 < i \<and> i < length ?es \<longrightarrow> Id' (?es ! i) \<noteq> Id' (?es ! (k - 1))"
  proof (intro allI impI)
    fix i assume i: "k - 1 < i \<and> i < length ?es"
    with len have "k - 1 < i" and "i < ?n" by simp_all
    moreover from \<open>i < ?n\<close> assms(3) have "i - (k - 1) < 4294967295" by arith
    ultimately have "k - 1 < i" and "i < ?n" and "i - (k - 1) < 4294967295" by simp_all
    from assignIds_distinct [OF this, of ?c]
    have "assignIds ?n ?c ! i \<noteq> assignIds ?n ?c ! (k - 1)" by simp
    with i len j show "Id' (?es ! i) \<noteq> Id' (?es ! (k - 1))"
      using ids by (metis nth_map)
  qed
  have buf: "inFlightPayloadBuffer c' = rev ?es" by simp
  from j len have j': "k - 1 < length ?es" by simp
  have unsent: "drop (Suc (k - 1)) (map Payload ?es) = drop k (submitted evs)"
    by (simp only: ps k)
  have "map Payload ?es ! (k - 1) = Payload (?es ! (k - 1))"
    using j' by (rule nth_map)
  then have failed: "Payload (?es ! (k - 1)) = submitted evs ! (k - 1)"
    by (simp only: ps)
  from connectionClose_found [OF buf j' mid nonzero newer]
  have "connectionClose e c' =
          \<lparr>UnsentPayloads = drop k (submitted evs), Error = e,
           ErrorPayload = Some (submitted evs ! (k - 1)),
           UnsentPayloadBufferOverflow = False\<rparr>"
    by (simp only: unsent failed)
  with run assigned show ?thesis by simp
qed

theorem sendListener_peer_error_witness:
  "active [SendPayload (Some 7), TimeoutFired, SendPayload (Some 10), SendPayload (Some 5)] \<and>
   fst (sendListener sample_marshal (sample_heap, socketAPNSConnectionBufSize fresh_socket 3)
          [SendPayload (Some 7), TimeoutFired, SendPayload (Some 10), SendPayload (Some 5),
           AppleErrorReceived (closeListener (ReadOk [8, 8, 0, 0, 0, 2]))])
     = Closed \<lparr>UnsentPayloads = [5],
               Error = \<lparr>MessageId = 2, ErrorCode = 8, ErrorString = ''INVALID_TOKEN''\<rparr>,
               ErrorPayload = Some 10,
               UnsentPayloadBufferOverflow = False\<rparr>"
proof -
  let ?evs = "[SendPayload (Some 7), TimeoutFired, SendPayload (Some 10), SendPayload (Some 5)]"
  let ?e = "closeListener (ReadOk [8, 8, 0, 0, 0, 2])"
  have e: "?e = \<lparr>MessageId = 2, ErrorCode = 8, ErrorString = ''INVALID_TOKEN''\<rparr>"
    by (simp add: closeListener_def BigEndian_Uint32_def response_string_def
        APPLE_PUSH_RESPONSES_def)
  have act: "active ?evs" by simp
  have fit: "int (length (submitted ?evs)) \<le> 3" by simp
  have few: "length (submitted ?evs) < 4294967296" by simp
  have lo: "(1 :: nat) \<le> 2" by simp
  have hi: "2 \<le> length (submitted ?evs)" by simp
  have mid: "MessageId ?e = word_of_nat 2" by (simp add: e)
  from sendListener_peer_error
         [OF act fit few lo hi mid, of sample_marshal sample_heap fresh_socket "[]"] act
  show ?thesis by (simp add: e)
qed

section \<open>The length field of an item\<close>

text \<open>With a token of 32 bytes and a payload that fits 16 bits, the length field is the
  number of bytes that follow it.\<close>

lemma bufferPayload_item_length_32:
  assumes "hex_DecodeString (Token (h (Payload ip))) = Some token"
    and "m (h (Payload ip)) 256 = Inr payloadBytes"
    and "length token = 32"
    and "bufferPayload_item m h ip = Inr (item, h')"
  shows "take 2 (drop 1 item) = be16 (word_of_nat (length item - 3))"
    and "length item - 3 = 32 + length payloadBytes + 4 + 4 + 1"
proof -
  from assms(4) have item: "item = [0] @ be16 (word_of_nat (32 + length payloadBytes + 4 + 4 + 1))
      @ token @ payloadBytes @ be32 (Id' ip) @ be32 (ExpirationTime (h (Payload ip)))
      @ [if Priority (h (Payload ip)) \<noteq> 10 \<and> Priority (h (Payload ip)) \<noteq> 5
         then 5 else Priority (h (Payload ip))]"
    by (simp only: bufferPayload_item_Inr [where h = h and ip = ip and m = m, OF assms(1,2)])
      simp
  from assms(3) show "length item - 3 = 32 + length payloadBytes + 4 + 4 + 1"
    by (simp add: item)
  then show "take 2 (drop 1 item) = be16 (word_of_nat (length item - 3))"
    by (simp add: item)
qed

text \<open>Claim C5 fails on the code for a token that is not 32 bytes long. The token
  \<open>ab\<close> decodes to one byte and the payload marshals to two bytes: the item carries
  the length 43 = 32 + 2 + 4 + 4 + 1 in its length field (the bytes 0 and 43 at offsets 1
  and 2), and 12 bytes follow the field.\<close>

theorem bufferPayload_item_length_mismatch:
  "hex_DecodeString (Token (short_heap 0)) = Some [171] \<and>
   sample_marshal (short_heap 0) 256 = Inr [123, 125] \<and>
   bufferPayload_item sample_marshal short_heap \<lparr>Payload = 0, Id' = 1\<rparr>
     = Inr ([0, 0, 43, 171, 123, 125, 0, 0, 0, 1, 0, 0, 14, 16, 10], short_heap) \<and>
   be16 (word_of_nat (32 + length [123 :: byte, 125] + 4 + 4 + 1)) = [0, 43] \<and>
   length [171 :: byte, 123, 125, 0, 0, 0, 1, 0, 0, 14, 16, 10] = 12"
  by (simp add: bufferPayload_item_def short_heap_def sample_marshal_def fromHexChar_def
      be16_def be32_def Let_def)

section \<open>The size of the frames\<close>

lemma fromHexChar_zero: "fromHexChar (CHR ''0'') = Some 0"
  by (simp add: fromHexChar_def)

lemma hex_DecodeString_zeros:
  "hex_DecodeString (replicate (2 * n) (CHR ''0'')) = Some (replicate n 0)"
  by (induction n) (simp_all add: fromHexChar_zero)

text \<open>On an empty frame buffer an item that encodes is written behind a new header,
  whatever its length.\<close>

lemma hex_DecodeString_long:
  "hex_DecodeString (replicate 131072 (CHR ''0'')) = Some (replicate 65536 0)"
  using hex_DecodeString_zeros [of 65536] by simp

lemma bufferPayload_empty:
  assumes "inFlightByteBuffer c = []"
    and "bufferPayload_item m h ip = Inr (item, h')"
  shows "bufferPayload m ip (h, c)
           = Some (h', c\<lparr>inFlightByteBuffer := [2] @ be32 0 @ item[0 := 0], inFlightId := 0\<rparr>)"
  using assms
  by (simp add: bufferPayload_def Let_def flushBufferToSocket_def writeItem_def writeHeader_def)

lemma flushBufferToSocket_frame:
  assumes "5 < length (inFlightByteBuffer c)"
  obtains c' where "flushBufferToSocket c = Some c'"
    and "map (\<lambda>w. length (fst w)) (writes (socket c'))
           = map (\<lambda>w. length (fst w)) (writes (socket c)) @ [length (inFlightByteBuffer c)]"
    and "length (inFlightByteBuffer c') = length (inFlightByteBuffer c)"
  by (rule that [OF flushBufferToSocket_writes [OF assms]]) (use assms in simp_all)

lemma long_item:
  "\<exists>item. bufferPayload_item sample_marshal long_heap \<lparr>Payload = 0, Id' = i\<rparr>
             = Inr (item, long_heap) \<and> length item = 65550"
proof -
  have tok: "hex_DecodeString (Token (long_heap (Payload \<lparr>Payload = 0, Id' = i\<rparr>)))
               = Some (replicate 65536 0)"
    by (simp add: long_heap_def hex_DecodeString_long)
  have mar: "sample_marshal (long_heap (Payload \<lparr>Payload = 0, Id' = i\<rparr>)) 256 = Inr [123, 125]"
    by (simp add: sample_marshal_def)
  have pri: "Priority (long_heap 0) = 10" by (simp add: long_heap_def)
  show ?thesis
    by (simp add: bufferPayload_item_Inr
          [where h = long_heap and ip = "\<lparr>Payload = 0, Id' = i\<rparr>" and m = sample_marshal,
           OF tok mar] pri)
qed

text \<open>Claim C4 fails on the code for an item that is longer than a frame. A payload whose
  token is a hex string of 131072 digits (65536 bytes) is submitted to a new connection and
  the timer fires: the one frame written to the transport has 65555 bytes.\<close>

theorem sendListener_long_frame:
  "hex_DecodeString (Token (long_heap 0)) = Some (replicate 65536 0) \<and>
   map (\<lambda>w. length (fst w))
     (writes (socket (snd (snd (sendListener sample_marshal
        (long_heap, NewAPNSConnection fresh_socket) [SendPayload (Some 0), TimeoutFired])))))
     = [65555] \<and>
   TCP_FRAME_MAX = 65535"
proof -
  obtain item where item: "bufferPayload_item sample_marshal long_heap \<lparr>Payload = 0, Id' = 1\<rparr>
             = Inr (item, long_heap)" and len: "length item = 65550"
    using long_item [of 1] by blast
  let ?c1 = "(NewAPNSConnection fresh_socket)
      \<lparr>payloadIdCounter := 1, inFlightPayloadBuffer := [\<lparr>Payload = 0, Id' = 1\<rparr>]\<rparr>"
  let ?c2 = "?c1\<lparr>inFlightByteBuffer := [2] @ be32 0 @ item[0 := 0], inFlightId := 0\<rparr>"
  have empty: "inFlightByteBuffer ?c1 = []"
    by (simp add: NewAPNSConnection_def socketAPNSConnection_def socketAPNSConnectionBufSize_def)
  have "submit sample_marshal 0 (long_heap, NewAPNSConnection fresh_socket)
          = bufferPayload sample_marshal \<lparr>Payload = 0, Id' = 1\<rparr> (long_heap, ?c1)"
    by (simp add: submit_def nextPayloadId_def Let_def NewAPNSConnection_def
        socketAPNSConnection_def socketAPNSConnectionBufSize_def)
  also have "\<dots> = Some (long_heap, ?c2)"
    using empty item by (rule bufferPayload_empty)
  finally have sub: "submit sample_marshal 0 (long_heap, NewAPNSConnection fresh_socket)
          = Some (long_heap, ?c2)" .
  have buf: "length (inFlightByteBuffer ?c2) = 65555"
    by (simp add: len)
  then have long: "5 < length (inFlightByteBuffer ?c2)" by simp
  have sock: "socket ?c2 = fresh_socket"
    by (simp add: NewAPNSConnection_def socketAPNSConnection_def socketAPNSConnectionBufSize_def)
  from long obtain c3 where fl: "flushBufferToSocket ?c2 = Some c3"
    and fr: "map (\<lambda>w. length (fst w)) (writes (socket c3))
               = map (\<lambda>w. length (fst w)) (writes (socket ?c2))
                   @ [length (inFlightByteBuffer ?c2)]"
    by (rule flushBufferToSocket_frame)
  have run: "sendListener sample_marshal (long_heap, NewAPNSConnection fresh_socket)
               [SendPayload (Some 0), TimeoutFired]
             = (Waiting, long_heap, c3)"
    by (simp only: sendListener.simps sub fl snd_conv fst_conv option.case)
  have "writes (socket ?c2) = []"
    by (simp only: sock) (simp add: fresh_socket_def)
  with fr buf have "map (\<lambda>w. length (fst w)) (writes (socket c3)) = [65555]"
    by (simp only: list.map append_Nil)
  then have "map (\<lambda>w. length (fst w))
     (writes (socket (snd (snd (sendListener sample_marshal
        (long_heap, NewAPNSConnection fresh_socket) [SendPayload (Some 0), TimeoutFired])))))
     = [65555]"
    by (simp only: run snd_conv)
  moreover have "hex_DecodeString (Token (long_heap 0)) = Some (replicate 65536 0)"
    by (simp add: long_heap_def hex_DecodeString_long)
  ultimately show ?thesis by (simp add: TCP_FRAME_MAX_def)
qed

text \<open>With tokens of 32 bytes and payloads of at most 256 bytes the frames keep to the
  maximum: the flush before an item that would not fit is enough then.\<close>

lemma bufferPayload_item_short:
  assumes "tokens32 h" and "bounded_marshal m"
    and "bufferPayload_item m h ip = Inr (item, h')"
  shows "length item \<le> 300" and "tokens32 h'"
proof -
  from assms(3) obtain token payloadBytes where
    tok: "hex_DecodeString (Token (h (Payload ip))) = Some token"
    and mar: "m (h (Payload ip)) 256 = Inr payloadBytes"
    by (auto simp: bufferPayload_item_def Let_def split: option.splits sum.splits)
  from assms(1) tok have "length token = 32"
    by (auto simp: tokens32_def split: option.splits dest: spec [of _ "Payload ip"])
  moreover from assms(2) mar have "length payloadBytes \<le> 256"
    by (auto simp: bounded_marshal_def split: sum.splits dest: spec [of _ "h (Payload ip)"])
  moreover note assms(3)
  ultimately show "length item \<le> 300"
    by (auto simp: bufferPayload_item_Inr [where h = h and ip = ip and m = m, OF tok mar])
  from assms(3) have "h' = h \<or> h' = h(Payload ip := (h (Payload ip))\<lparr>Priority := 5\<rparr>)"
    by (auto simp: bufferPayload_item_Inr [where h = h and ip = ip and m = m, OF tok mar]
        split: if_splits)
  with assms(1) show "tokens32 h'"
    by (auto simp: tokens32_def)
qed

lemma flushBufferToSocket_bounded:
  assumes "frames_bounded c" and "flushBufferToSocket c = Some c'"
  shows "frames_bounded c'"
proof (cases "5 < length (inFlightByteBuffer c)")
  case True
  from flushBufferToSocket_writes [OF True] assms show ?thesis
    using True by (auto simp: frames_bounded_def)
next
  case False
  with assms(2) have "c' = c"
    by (auto simp: flushBufferToSocket_def Let_def split: if_splits)
  with assms(1) show ?thesis by simp
qed

lemma Disconnect_bounded:
  assumes "frames_bounded c" and "Disconnect c = Some c'"
  shows "frames_bounded c'"
proof -
  from assms(2) obtain c1 where fl: "flushBufferToSocket c = Some c1"
    and c': "c' = noFlushDisconnect c1"
    by (auto simp: Disconnect_def split: option.splits)
  from flushBufferToSocket_bounded [OF assms(1) fl] c' show ?thesis
    by (simp add: frames_bounded_def noFlushDisconnect_def socket_Close_def)
qed

lemma bufferPayload_bounded:
  assumes "tokens32 h" and "bounded_marshal m" and "frames_bounded c"
    and "bufferPayload m ip (h, c) = Some (h', c')"
  shows "tokens32 h' \<and> frames_bounded c'"
proof (cases "bufferPayload_item m h ip")
  case (Inl e)
  with assms(4) have "h' = h" and "Disconnect c = Some c'"
    by (auto simp: bufferPayload_def)
  with assms(1,3) show ?thesis by (auto dest: Disconnect_bounded)
next
  case (Inr r)
  obtain item h1 where r: "r = (item, h1)" by (cases r)
  from bufferPayload_item_short [OF assms(1,2) Inr [unfolded r]]
  have short: "length item \<le> 300" and h1: "tokens32 h1" by simp_all
  from assms(4) Inr r have h': "h' = h1"
    by (auto simp: bufferPayload_def Let_def split: if_splits option.splits)
  have "frames_bounded c'"
  proof (cases "length (inFlightByteBuffer c) + length item > TCP_FRAME_MAX")
    case True
    with assms(4) Inr r obtain c1 where fl: "flushBufferToSocket c = Some c1"
      and c': "c' = writeItem item (writeHeader (c1\<lparr>inFlightByteBuffer := []\<rparr>))"
      by (auto simp: bufferPayload_def Let_def split: option.splits)
    from flushBufferToSocket_bounded [OF assms(3) fl] short c' show ?thesis
      by (simp add: frames_bounded_def writeItem_def writeHeader_def TCP_FRAME_MAX_def)
  next
    case False
    with assms(4) Inr r
    have "c' = writeItem item (writeHeader c) \<and> inFlightByteBuffer c = []
          \<or> c' = writeItem item (c\<lparr>inFlightId := inFlightId c + 1\<rparr>)"
      by (auto simp: bufferPayload_def Let_def split: if_splits)
    with assms(3) short False show ?thesis
      by (auto simp: frames_bounded_def writeItem_def writeHeader_def TCP_FRAME_MAX_def)
  qed
  with h1 h' show ?thesis by simp
qed

lemma submit_bounded:
  assumes "tokens32 h" and "bounded_marshal m" and "frames_bounded c"
    and "submit m r (h, c) = Some (h', c')"
  shows "tokens32 h' \<and> frames_bounded c'"
proof -
  let ?i = "fst (nextPayloadId c)"
  let ?c1 = "snd (nextPayloadId c)"
  let ?obj = "\<lparr>Payload = r, Id' = ?i\<rparr>"
  let ?c2 = "?c1\<lparr>inFlightPayloadBuffer := ?obj # inFlightPayloadBuffer ?c1\<rparr>"
  let ?c3 = "if int (length (inFlightPayloadBuffer ?c2)) > inFlightPayloadBufferSize ?c2
             then ?c2\<lparr>inFlightPayloadBuffer := butlast (inFlightPayloadBuffer ?c2)\<rparr> else ?c2"
  have sub: "submit m r (h, c) = bufferPayload m ?obj (h, ?c3)"
    by (simp add: submit_def Let_def split_def)
  from assms(3) have "frames_bounded ?c3"
    by (simp add: frames_bounded_def nextPayloadId_def Let_def)
  from bufferPayload_bounded [OF assms(1,2) this] assms(4) sub show ?thesis
    by simp
qed

lemma sendListener_frames_bounded:
  assumes "bounded_marshal m" and "tokens32 (fst hc)" and "frames_bounded (snd hc)"
  shows "tokens32 (fst (snd (sendListener m hc evs))) \<and>
         frames_bounded (snd (snd (sendListener m hc evs)))"
  using assms
proof (induction m hc evs rule: sendListener.induct)
  case (3 m hc sendPayload evs)
  show ?case
  proof (cases "submit m sendPayload hc")
    case None
    with 3 show ?thesis by simp
  next
    case (Some hc')
    from submit_bounded [OF "3.prems"(2,1,3), of sendPayload "fst hc'" "snd hc'"] Some
    have "tokens32 (fst hc') \<and> frames_bounded (snd hc')" by simp
    with "3.IH" [OF Some "3.prems"(1)] Some show ?thesis by simp
  qed
next
  case (4 m hc evs)
  show ?case
  proof (cases "flushBufferToSocket (snd hc)")
    case None
    with 4 show ?thesis by simp
  next
    case (Some c')
    from flushBufferToSocket_bounded [OF "4.prems"(3) Some]
    have "frames_bounded c'" .
    with "4.IH" [OF Some "4.prems"(1)] "4.prems"(2) Some show ?thesis by simp
  qed
qed simp_all

lemma frames_bounded_NewAPNSConnection:
  "frames_bounded (socketAPNSConnectionBufSize \<lparr>writes = [], closes = n, outcomes = os\<rparr> cap)"
  by (simp add: frames_bounded_def socketAPNSConnectionBufSize_def)

text \<open>The sample inputs are of this kind, so the frames of every run on them keep to the
  maximum.\<close>

lemma sample_inputs_short: "tokens32 sample_heap \<and> bounded_marshal sample_marshal"
  by (simp add: tokens32_def bounded_marshal_def sample_heap_def sample_marshal_def
      hex_DecodeString_token32)

lemma sample_frames_bounded:
  "frames_bounded (snd (snd (sendListener sample_marshal
      (sample_heap, NewAPNSConnection fresh_socket) evs)))"
proof -
  have "frames_bounded (snd (sample_heap, NewAPNSConnection fresh_socket))"
    by (simp add: frames_bounded_def NewAPNSConnection_def socketAPNSConnection_def
        socketAPNSConnectionBufSize_def fresh_socket_def)
  moreover have "tokens32 (fst (sample_heap, NewAPNSConnection fresh_socket))"
    and "bounded_marshal sample_marshal"
    using sample_inputs_short by simp_all
  ultimately show ?thesis
    using sendListener_frames_bounded by blast
qed

end
